theory Spec2Isabelle
  imports Complex_Main "HOL-Library.Word" "HOL-Library.Signed_Division"
begin

section \<open>Data model of p3D\_acoustic.c\<close>

text \<open>
  \<open>PetscInt\<close> is the 32-bit C \<open>int\<close> of a default PETSc build; the loop counters of the
  source are \<open>unsigned int\<close>. Both are 32-bit words: the usual arithmetic conversions of C
  turn the \<open>int\<close> operand of a mixed comparison into \<open>unsigned int\<close> and keep its bits, so
  \<open>=\<close> and \<open><\<close> on words are the comparisons of the source, and \<open>+\<close> and \<open>-\<close> wrap.
  A conversion to \<open>double\<close> reads a \<open>PetscInt\<close> with \<open>sint\<close>.

  \<open>PetscScalar\<close> and \<open>double\<close> are modelled by exact real numbers: the operations do
  not round, and no infinity or NaN exists. Division by zero is therefore kept out of
  the theorems by hypothesis where its value matters. A literal with the suffix \<open>f\<close> is a
  single-precision number that C converts to \<open>double\<close> without change: \<open>1.2f\<close> is not 1.2
  but the nearest single-precision number, while every other such literal of the
  source (\<open>0.f\<close>, \<open>1.f\<close>, \<open>2.f\<close>, \<open>4.f\<close>, \<open>5.f\<close>, \<open>10.f\<close>, \<open>70.f\<close>, \<open>180.f\<close>, \<open>1000.f\<close>,
  \<open>1800.f\<close>) is a whole number and exact. The \<open>double\<close> literal of \<open>PI\<close> is taken at its
  decimal value.
\<close>

type_synonym PetscInt = "32 word"
type_synonym PetscScalar = real

text \<open>
  A \<open>MatStencil\<close> names a grid node by its indices, in the order \<open>(k, j, i)\<close> of the
  array view \<open>_b[k][j][i]\<close>; its component field \<open>c\<close> is never written by the program.
  A \<open>Vec\<close> is read and written through that array view only.
\<close>

type_synonym MatStencil = "PetscInt \<times> PetscInt \<times> PetscInt"
type_synonym Vec = "MatStencil \<Rightarrow> PetscScalar"

record wfield =
  ux :: Vec
  uxm1 :: Vec
  uxm2 :: Vec
  uxm3 :: Vec

text \<open>The fields \<open>xmin\<close>, \<open>ymin\<close>, \<open>zmin\<close> of the source are never written or read.\<close>

record model_par =
  nx :: PetscInt
  ny :: PetscInt
  nz :: PetscInt
  dx :: PetscScalar
  dy :: PetscScalar
  dz :: PetscScalar
  xmax :: PetscScalar
  ymax :: PetscScalar
  zmax :: PetscScalar
  c11 :: Vec
  rho :: Vec

text \<open>The fields \<open>t0\<close> and \<open>t\<close> of the source are never written or read.\<close>

record time_par =
  dt :: PetscScalar
  tmax :: PetscScalar
  it :: PetscInt
  nt :: PetscInt

record source =
  isrc :: PetscInt
  jsrc :: PetscInt
  ksrc :: PetscInt
  factor :: PetscScalar
  angle_force :: PetscScalar
  f0 :: PetscScalar
  fx :: PetscScalar
  fy :: PetscScalar
  fz :: PetscScalar

text \<open>The user context; the receivers of the source are never used.\<close>

record ctx_t =
  wf :: wfield
  model :: model_par
  time :: time_par
  src :: source

text \<open>The part of PETSc's \<open>DMDALocalInfo\<close> that the program reads: the global node counts
  and the corner and widths of the locally owned box.\<close>

record DMDALocalInfo =
  mx :: PetscInt
  my :: PetscInt
  mz :: PetscInt
  xs :: PetscInt
  ys :: PetscInt
  zs :: PetscInt
  xm :: PetscInt
  ym :: PetscInt
  zm :: PetscInt


section \<open>The source term\<close>

text \<open>The macro \<open>PI\<close>; \<open>DEGREES_TO_RADIANS\<close> expands textually to \<open>PI/180.f\<close>.\<close>

definition PI :: PetscScalar where
  "PI = 3.1415926535"

text \<open>The local \<open>t = (double) (it-1) * dt\<close> of \<open>source_term\<close>, where the local \<open>it\<close> is the
  step counter converted to \<open>PetscScalar\<close>.\<close>

definition elapsed :: "ctx_t \<Rightarrow> PetscScalar" where
  "elapsed c = (real_of_int (sint (it (time c))) - 1) * dt (time c)"

text \<open>
  The literal \<open>1.2f\<close> of \<open>t0 = 1.2f / f0\<close> (line 357): the single-precision number nearest
  to 1.2, with the 24-bit significand \<open>10066330\<close> and the exponent \<open>2\<^sup>-\<^sup>2\<^sup>3\<close>, which is
  \<open>5033165 / 4194304 = 1.2000000476837158203125\<close>.
\<close>

definition float_1_2 :: PetscScalar where
  "float_1_2 = 5033165 / 4194304"

text \<open>The Ricker value that \<open>source_term\<close> holds in its local of the same name (line 373),
  as a function of the amplitude, the frequency and the time \<open>t\<close>.\<close>

definition wavelet :: "PetscScalar \<Rightarrow> PetscScalar \<Rightarrow> PetscScalar \<Rightarrow> PetscScalar" where
  "wavelet amp freq t =
     (let t0 = float_1_2 / freq;
          a = PI * PI * freq * freq
      in amp * (1 - 2 * a * (t - t0)\<^sup>2) * exp (- a * (t - t0)\<^sup>2))"

definition source_term :: "ctx_t \<Rightarrow> ctx_t" where
  "source_term c =
     (let w = wavelet (factor (src c)) (f0 (src c)) (elapsed c);
          force_x = sin (angle_force (src c) * PI / 180) * w;
          force_y = cos (angle_force (src c) * PI / 180) * w;
          force_z = sin (angle_force (src c) * PI / 180) * w
      in c\<lparr>src := (src c)\<lparr>fx := force_x, fy := force_y, fz := force_z\<rparr>\<rparr>)"


section \<open>Loops over the locally owned nodes\<close>

text \<open>
  \<open>for (i = grid.xs; i < (grid.xs + grid.xm); i++)\<close> with an \<open>unsigned int i\<close>: the counter
  starts at the corner and is compared, unsigned, with the sum computed in \<open>PetscInt\<close>.
  While the test holds the counter is below a 32-bit value, so the increment never wraps
  and the loop visits the values from \<open>s\<close> up to, not including, \<open>s + m\<close>, in order.
\<close>

definition node_range :: "PetscInt \<Rightarrow> PetscInt \<Rightarrow> PetscInt list" where
  "node_range s m = map word_of_nat [unat s ..< unat (s + m)]"

text \<open>A loop whose body may fault: it stops at the first fault.\<close>

fun for_nodes :: "'a list \<Rightarrow> ('a \<Rightarrow> 's \<Rightarrow> 's option) \<Rightarrow> 's \<Rightarrow> 's option" where
  "for_nodes [] body s = Some s"
| "for_nodes (x # l) body s =
     (case body x s of None \<Rightarrow> None | Some s' \<Rightarrow> for_nodes l body s')"

text \<open>The nodes that the three nested loops of a builder visit.\<close>

definition owns :: "DMDALocalInfo \<Rightarrow> MatStencil \<Rightarrow> bool" where
  "owns g = (\<lambda>(k, j, i).
     k \<in> set (node_range (zs g) (zm g)) \<and>
     j \<in> set (node_range (ys g) (ym g)) \<and>
     i \<in> set (node_range (xs g) (xm g)))"

text \<open>What PETSc grants of a \<open>DMDALocalInfo\<close>: the owned box lies inside the grid.\<close>

definition DMDA_ok :: "DMDALocalInfo \<Rightarrow> bool" where
  "DMDA_ok g \<longleftrightarrow>
     unat (xs g) + unat (xm g) \<le> unat (mx g) \<and>
     unat (ys g) + unat (ym g) \<le> unat (my g) \<and>
     unat (zs g) + unat (zm g) \<le> unat (mz g)"

text \<open>The test for the boundary layers, written the same in both builders.\<close>

definition on_boundary :: "DMDALocalInfo \<Rightarrow> MatStencil \<Rightarrow> bool" where
  "on_boundary g = (\<lambda>(k, j, i).
     i = 0 \<or> i = mx g - 1 \<or> j = 0 \<or> j = my g - 1 \<or> k = 0 \<or> k = mz g - 1)"

text \<open>The locals \<open>hx\<close>, \<open>hy\<close>, \<open>hz\<close> of both builders: \<open>1.f / (double) (grid.mx - 1)\<close>.\<close>

definition hx :: "DMDALocalInfo \<Rightarrow> PetscScalar" where
  "hx g = 1 / real_of_int (sint (mx g - 1))"

definition hy :: "DMDALocalInfo \<Rightarrow> PetscScalar" where
  "hy g = 1 / real_of_int (sint (my g - 1))"

definition hz :: "DMDALocalInfo \<Rightarrow> PetscScalar" where
  "hz g = 1 / real_of_int (sint (mz g - 1))"


section \<open>The right-hand side\<close>

text \<open>The body of the innermost loop of \<open>update_b_ux\<close>: the value stored in \<open>_b[k][j][i]\<close>.
  The compound assignment \<open>f *= e\<close> multiplies \<open>f\<close> by the whole of \<open>e\<close>.\<close>

definition b_node :: "DMDALocalInfo \<Rightarrow> ctx_t \<Rightarrow> MatStencil \<Rightarrow> PetscScalar" where
  "b_node g c = (\<lambda>(k, j, i).
     if on_boundary g (k, j, i) then 0
     else
       (let dt2 = (dt (time c))\<^sup>2;
            f = hx g * hy g * hz g;
            source_term =
              (if i = isrc (src c) \<and> j = jsrc (src c) \<and> k = ksrc (src c)
               then dt2 / rho (model c) (k, j, i) * fx (src c)
               else 0)
        in f * (5 * uxm1 (wf c) (k, j, i) - 4 * uxm2 (wf c) (k, j, i)
                + 1 * uxm3 (wf c) (k, j, i) + source_term)))"

text \<open>The three nested loops of \<open>update_b_ux\<close> (lines 439 to 474) on the vector \<open>b\<close>.\<close>

definition update_b_ux_loops :: "DMDALocalInfo \<Rightarrow> ctx_t \<Rightarrow> Vec \<Rightarrow> Vec" where
  "update_b_ux_loops g c =
     fold (\<lambda>k. fold (\<lambda>j. fold (\<lambda>i b. b((k, j, i) := b_node g c (k, j, i)))
                            (node_range (xs g) (xm g)))
                   (node_range (ys g) (ym g)))
          (node_range (zs g) (zm g))"

text \<open>
  \<open>update_b_ux\<close>: the source term is evaluated into the context, the loops fill \<open>b\<close>, and
  PETSc's \<open>MatNullSpaceRemove\<close>, a parameter here, is applied to the filled vector.
\<close>

definition update_b_ux :: "(Vec \<Rightarrow> Vec) \<Rightarrow> DMDALocalInfo \<Rightarrow> Vec \<Rightarrow> ctx_t \<Rightarrow> Vec \<times> ctx_t" where
  "update_b_ux MatNullSpaceRemove g b c =
     (let c' = source_term c
      in (MatNullSpaceRemove (update_b_ux_loops g c' b), c'))"


section \<open>The operator\<close>

text \<open>
  The entries that the program has set in a matrix: a row and a column give the value
  set there, if any. \<open>MatSetValuesStencil\<close> with \<open>INSERT_VALUES\<close> and one row stores the
  first \<open>n\<close> values of \<open>v\<close> at the first \<open>n\<close> columns of \<open>idxn\<close>, in order.
\<close>

type_synonym Mat = "MatStencil \<Rightarrow> MatStencil \<rightharpoonup> PetscScalar"

definition MatSetValuesStencil ::
  "Mat \<Rightarrow> MatStencil \<Rightarrow> nat \<Rightarrow> (nat \<Rightarrow> MatStencil) \<Rightarrow> (nat \<Rightarrow> PetscScalar) \<Rightarrow> Mat" where
  "MatSetValuesStencil A idxm n idxn v =
     A(idxm := fold (\<lambda>m r. r(idxn m \<mapsto> v m)) [0..<n] (A idxm))"

text \<open>
  The arrays \<open>idxn[7]\<close> and \<open>v[7]\<close> with the running count \<open>n\<close>. An array is a function of
  the index, so its contents before the first write are whatever the function holds;
  a write at an index outside the seven elements is a fault, \<open>None\<close>.
\<close>

type_synonym row_state = "nat \<times> (nat \<Rightarrow> MatStencil) \<times> (nat \<Rightarrow> PetscScalar)"

text \<open>\<open>idxn[n] = col; v[n] = x; n++\<close>.\<close>

definition add_column :: "MatStencil \<Rightarrow> PetscScalar \<Rightarrow> row_state \<Rightarrow> row_state option" where
  "add_column col x = (\<lambda>(n, idxn, v).
     if n < 7 then Some (n + 1, idxn(n := col), v(n := x)) else None)"

text \<open>\<open>if (test) { idxn[n] = col; v[n] = x; n++; }\<close>.\<close>

definition add_column_if ::
  "bool \<Rightarrow> MatStencil \<Rightarrow> PetscScalar \<Rightarrow> row_state \<Rightarrow> row_state option" where
  "add_column_if test col x st = (if test then add_column col x st else Some st)"

text \<open>The body of the innermost loop of \<open>compute_A_ux\<close> up to the call of
  \<open>MatSetValuesStencil\<close>: from the arrays as the last row left them to the count and the
  arrays of this row.\<close>

definition stencil_row ::
  "DMDALocalInfo \<Rightarrow> ctx_t \<Rightarrow> MatStencil \<Rightarrow>
   (nat \<Rightarrow> MatStencil) \<times> (nat \<Rightarrow> PetscScalar) \<Rightarrow> row_state option" where
  "stencil_row g c = (\<lambda>(k, j, i) (idxn, v).
     (let dt2 = dt (time c) * dt (time c);
          hyhzdhx = hy g * hz g / hx g;
          hxhzdhy = hx g * hz g / hy g;
          hxhydhz = hx g * hy g / hz g;
          n = 1;
          idxn = idxn(0 := (k, j, i))
      in if on_boundary g (k, j, i) then Some (n, idxn, v(0 := 1))
         else
           map_option (\<lambda>(n, idxn, v). (n, idxn, v(0 := v 0 + 2 * hx g * hy g * hz g)))
           (Option.bind (Option.bind (Option.bind (Option.bind (Option.bind (Option.bind
             (Some (n, idxn,
                    v(0 := c11 (model c) (k, j, i) * dt2 / rho (model c) (k, j, i)
                           * 2 * (hyhzdhx + hxhzdhy + hxhydhz))))
             (add_column_if (0 < i - 1) (k, j, i - 1)
                (- c11 (model c) (k, j, i) * dt2 / rho (model c) (k, j, i) * hyhzdhx)))
             (add_column_if (i + 1 < mx g - 1) (k, j, i + 1)
                (- c11 (model c) (k, j, i) * dt2 / rho (model c) (k, j, i) * hyhzdhx)))
             (add_column_if (0 < j - 1) (k, j - 1, i)
                (- c11 (model c) (k, j, i) * dt2 / rho (model c) (k, j, i) * hxhzdhy)))
             (add_column_if (j + 1 < my g - 1) (k, j + 1, i)
                (- c11 (model c) (k, j, i) * dt2 / rho (model c) (k, j, i) * hxhzdhy)))
             (add_column_if (0 < k - 1) (k - 1, j, i)
                (- c11 (model c) (k, j, i) * dt2 / rho (model c) (k, j, i) * hxhydhz)))
             (add_column_if (k + 1 < mz g - 1) (k + 1, j, i)
                (- c11 (model c) (k, j, i) * dt2 / rho (model c) (k, j, i) * hxhydhz)))))"

text \<open>
  The same row as a list: the columns and values that the arrays hold, in the order of
  the arrays, when the row is handed to \<open>MatSetValuesStencil\<close>. The first entry is the
  diagonal, with the term \<open>2 * hx * hy * hz\<close> that the source adds last.
\<close>

definition row_entries ::
  "DMDALocalInfo \<Rightarrow> ctx_t \<Rightarrow> MatStencil \<Rightarrow> (MatStencil \<times> PetscScalar) list" where
  "row_entries g c = (\<lambda>(k, j, i).
     (let dt2 = dt (time c) * dt (time c);
          hyhzdhx = hy g * hz g / hx g;
          hxhzdhy = hx g * hz g / hy g;
          hxhydhz = hx g * hy g / hz g
      in if on_boundary g (k, j, i) then [((k, j, i), 1)]
         else
           ((k, j, i), c11 (model c) (k, j, i) * dt2 / rho (model c) (k, j, i)
                         * 2 * (hyhzdhx + hxhzdhy + hxhydhz) + 2 * hx g * hy g * hz g)
           # (if 0 < i - 1
              then [((k, j, i - 1),
                     - c11 (model c) (k, j, i) * dt2 / rho (model c) (k, j, i) * hyhzdhx)]
              else [])
           @ (if i + 1 < mx g - 1
              then [((k, j, i + 1),
                     - c11 (model c) (k, j, i) * dt2 / rho (model c) (k, j, i) * hyhzdhx)]
              else [])
           @ (if 0 < j - 1
              then [((k, j - 1, i),
                     - c11 (model c) (k, j, i) * dt2 / rho (model c) (k, j, i) * hxhzdhy)]
              else [])
           @ (if j + 1 < my g - 1
              then [((k, j + 1, i),
                     - c11 (model c) (k, j, i) * dt2 / rho (model c) (k, j, i) * hxhzdhy)]
              else [])
           @ (if 0 < k - 1
              then [((k - 1, j, i),
                     - c11 (model c) (k, j, i) * dt2 / rho (model c) (k, j, i) * hxhydhz)]
              else [])
           @ (if k + 1 < mz g - 1
              then [((k + 1, j, i),
                     - c11 (model c) (k, j, i) * dt2 / rho (model c) (k, j, i) * hxhydhz)]
              else [])))"

text \<open>The arrays with their count hold a list: the count is its length and the
  elements below the count are its elements.\<close>

definition holds :: "row_state \<Rightarrow> (MatStencil \<times> PetscScalar) list \<Rightarrow> bool" where
  "holds = (\<lambda>(n, idxn, v) es. n = length es \<and> (\<forall>m<n. (idxn m, v m) = es ! m))"

text \<open>One pass of the innermost loop: the row is built and inserted.\<close>

type_synonym assembly = "(nat \<Rightarrow> MatStencil) \<times> (nat \<Rightarrow> PetscScalar) \<times> Mat"

definition insert_node_row :: "DMDALocalInfo \<Rightarrow> ctx_t \<Rightarrow> MatStencil \<Rightarrow> assembly \<Rightarrow> assembly option" where
  "insert_node_row g c p = (\<lambda>(idxn, v, A).
     case stencil_row g c p (idxn, v) of
       None \<Rightarrow> None
     | Some (n, idxn', v') \<Rightarrow> Some (idxn', v', MatSetValuesStencil A p n idxn' v'))"

text \<open>\<open>compute_A_ux\<close>: the three nested loops over the owned nodes. The final assembly
  calls of PETSc change no value.\<close>

definition compute_A_ux :: "DMDALocalInfo \<Rightarrow> ctx_t \<Rightarrow> assembly \<Rightarrow> assembly option" where
  "compute_A_ux g c =
     for_nodes (node_range (zs g) (zm g)) (\<lambda>k.
       for_nodes (node_range (ys g) (ym g)) (\<lambda>j.
         for_nodes (node_range (xs g) (xm g)) (\<lambda>i.
           insert_node_row g c (k, j, i))))"

text \<open>
  The operator that \<open>compute_A_ux\<close> leaves in a matrix in which nothing was set, if no
  row faults. \<open>stack\<close> is what the arrays \<open>idxn\<close> and \<open>v\<close> hold on entry.
\<close>

definition assemble ::
  "(nat \<Rightarrow> MatStencil) \<times> (nat \<Rightarrow> PetscScalar) \<Rightarrow> DMDALocalInfo \<Rightarrow> ctx_t \<Rightarrow> Mat option" where
  "assemble stack g c =
     map_option (\<lambda>(idxn, v, A). A)
       (compute_A_ux g c (fst stack, snd stack, (\<lambda>p. Map.empty)))"


section \<open>The main program\<close>

text \<open>The conversion of a \<open>double\<close> to \<open>PetscInt\<close> drops the fraction.\<close>

definition double_to_PetscInt :: "PetscScalar \<Rightarrow> PetscInt" where
  "double_to_PetscInt r = word_of_int (if 0 \<le> r then \<lfloor>r\<rfloor> else \<lceil>r\<rceil>)"

text \<open>
  The set-up of \<open>main\<close> before the time loop. \<open>c0\<close> is the context as declared, holding
  whatever the memory and the freshly duplicated vectors hold; the node counts are those
  of the mesh, which \<open>DMDAGetInfo\<close> reads; \<open>VecMax\<close> of the vector that \<open>VecSet\<close> filled
  with 1800 is 1800. Nothing here reads the node counts to accept or refuse them.
\<close>

definition main_setup :: "ctx_t \<Rightarrow> DMDALocalInfo \<Rightarrow> ctx_t" where
  "main_setup c0 g =
     (let cmax = 1800;
          dx0 = 1000 / real_of_int (sint (mx g));
          dy0 = 1000 / real_of_int (sint (my g));
          dz0 = 1000 / real_of_int (sint (mz g));
          dt0 = dx0 / cmax;
          tmax0 = 1
      in c0\<lparr>model := (model c0)\<lparr>nx := mx g, ny := my g, nz := mz g,
                                    dx := dx0, dy := dy0, dz := dz0,
                                    xmax := 1000, ymax := 1000, zmax := 1000,
                                    c11 := (\<lambda>p. 1800), rho := (\<lambda>p. 1000)\<rparr>,
            time := (time c0)\<lparr>dt := dt0, tmax := tmax0,
                                  nt := double_to_PetscInt (tmax0 / dt0)\<rparr>,
            src := (src c0)\<lparr>isrc := word_of_int (sint (mx g) sdiv 2),
                                jsrc := word_of_int (sint (my g) sdiv 2),
                                ksrc := word_of_int (sint (mz g) sdiv 2),
                                f0 := 70, factor := 10 ^ 10, angle_force := 90\<rparr>\<rparr>)"

text \<open>
  What the time loop carries: the context, the vector \<open>b\<close>, and the operator that the
  solver object holds, absent until the first solve has assembled it.
\<close>

record run_state =
  st_ctx :: ctx_t
  st_b :: Vec
  st_A :: "Mat option"

text \<open>
  A fault of the model is either a PETSc error code, which \<open>CHKERRQ\<close> returns from
  \<open>main\<close>, or a write outside the stencil arrays.
\<close>

datatype error = PetscError | StencilOverrun

text \<open>
  \<open>KSPSolve\<close> as the program uses it, with the callbacks that \<open>main\<close> registers: the
  right-hand side callback \<open>update_b_ux\<close> runs at every solve, the operator callback
  \<open>compute_A_ux\<close> at the first solve only, on a matrix with nothing set, and the solution
  is written over \<open>ux\<close>. The linear solver of PETSc is a parameter: from the operator,
  the right-hand side and the vector \<open>ux\<close> it is given, it returns the solution, or
  fails.
\<close>

definition KSPSolve ::
  "(Mat \<Rightarrow> Vec \<Rightarrow> Vec \<Rightarrow> Vec option) \<Rightarrow> (Vec \<Rightarrow> Vec) \<Rightarrow>
   (nat \<Rightarrow> MatStencil) \<times> (nat \<Rightarrow> PetscScalar) \<Rightarrow> DMDALocalInfo \<Rightarrow>
   run_state \<Rightarrow> error + run_state" where
  "KSPSolve linear_solve MatNullSpaceRemove stack g s =
     (let (b', c') = update_b_ux MatNullSpaceRemove g (st_b s) (st_ctx s)
      in case (case st_A s of Some A \<Rightarrow> Some A | None \<Rightarrow> assemble stack g c') of
           None \<Rightarrow> Inl StencilOverrun
         | Some A \<Rightarrow>
             (case linear_solve A b' (ux (wf c')) of
                None \<Rightarrow> Inl PetscError
              | Some u \<Rightarrow> Inr \<lparr>st_ctx = (c'\<lparr>wf := (wf c')\<lparr>ux := u\<rparr>\<rparr>),
                               st_b = b', st_A = Some A\<rparr>))"

text \<open>The three \<open>VecCopy\<close> calls of the loop body, in their order.\<close>

definition rotate_history :: "wfield \<Rightarrow> wfield" where
  "rotate_history w =
     (let w1 = w\<lparr>uxm3 := uxm2 w\<rparr>;
          w2 = w1\<lparr>uxm2 := uxm1 w1\<rparr>
      in w2\<lparr>uxm1 := ux w2\<rparr>)"

text \<open>One pass of the time loop with the counter at \<open>n\<close>. The report printed every 40th
  step changes nothing that the program reads again.\<close>

definition time_step ::
  "(Mat \<Rightarrow> Vec \<Rightarrow> Vec \<Rightarrow> Vec option) \<Rightarrow> (Vec \<Rightarrow> Vec) \<Rightarrow>
   (nat \<Rightarrow> MatStencil) \<times> (nat \<Rightarrow> PetscScalar) \<Rightarrow> DMDALocalInfo \<Rightarrow>
   int \<Rightarrow> run_state \<Rightarrow> error + run_state" where
  "time_step linear_solve MatNullSpaceRemove stack g n s =
     (let c = st_ctx s;
          s1 = s\<lparr>st_ctx := c\<lparr>time := (time c)\<lparr>it := word_of_int n\<rparr>\<rparr>\<rparr>
      in case KSPSolve linear_solve MatNullSpaceRemove stack g s1 of
           Inl e \<Rightarrow> Inl e
         | Inr s2 \<Rightarrow> Inr (s2\<lparr>st_ctx := (st_ctx s2)\<lparr>wf := rotate_history (wf (st_ctx s2))\<rparr>\<rparr>))"

text \<open>A loop that stops at the first error.\<close>

fun for_steps :: "int list \<Rightarrow> (int \<Rightarrow> 's \<Rightarrow> error + 's) \<Rightarrow> 's \<Rightarrow> error + 's" where
  "for_steps [] body s = Inr s"
| "for_steps (n # l) body s =
     (case body n s of Inl e \<Rightarrow> Inl e | Inr s' \<Rightarrow> for_steps l body s')"

text \<open>The time loop \<open>for (int it = 1; it <= *pnt; it++)\<close> run up to and including step
  \<open>n\<close>, from the state \<open>s\<close>.\<close>

definition time_loop ::
  "(Mat \<Rightarrow> Vec \<Rightarrow> Vec \<Rightarrow> Vec option) \<Rightarrow> (Vec \<Rightarrow> Vec) \<Rightarrow>
   (nat \<Rightarrow> MatStencil) \<times> (nat \<Rightarrow> PetscScalar) \<Rightarrow> DMDALocalInfo \<Rightarrow>
   int \<Rightarrow> run_state \<Rightarrow> error + run_state" where
  "time_loop linear_solve MatNullSpaceRemove stack g n s =
     for_steps [1..n] (time_step linear_solve MatNullSpaceRemove stack g) s"

text \<open>\<open>main\<close>: the set-up, then the time loop over the steps 1 to \<open>nt\<close>.\<close>

definition main ::
  "(Mat \<Rightarrow> Vec \<Rightarrow> Vec \<Rightarrow> Vec option) \<Rightarrow> (Vec \<Rightarrow> Vec) \<Rightarrow>
   (nat \<Rightarrow> MatStencil) \<times> (nat \<Rightarrow> PetscScalar) \<Rightarrow> ctx_t \<Rightarrow> Vec \<Rightarrow> DMDALocalInfo \<Rightarrow>
   error + run_state" where
  "main linear_solve MatNullSpaceRemove stack c0 b0 g =
     (let c = main_setup c0 g
      in time_loop linear_solve MatNullSpaceRemove stack g (sint (nt (time c)))
           \<lparr>st_ctx = c, st_b = b0, st_A = None\<rparr>)"


section \<open>Concrete inputs\<close>

text \<open>A context with every number zero, from which the examples are made.\<close>

definition zero_ctx :: ctx_t where
  "zero_ctx =
     \<lparr>wf = \<lparr>ux = (\<lambda>p. 0), uxm1 = (\<lambda>p. 0), uxm2 = (\<lambda>p. 0), uxm3 = (\<lambda>p. 0)\<rparr>,
      model = \<lparr>nx = 0, ny = 0, nz = 0, dx = 0, dy = 0, dz = 0,
               xmax = 0, ymax = 0, zmax = 0, c11 = (\<lambda>p. 0), rho = (\<lambda>p. 0)\<rparr>,
      time = \<lparr>dt = 0, tmax = 0, it = 0, nt = 0\<rparr>,
      src = \<lparr>isrc = 0, jsrc = 0, ksrc = 0, factor = 0, angle_force = 0, f0 = 0,
             fx = 0, fy = 0, fz = 0\<rparr>\<rparr>"

text \<open>Step 2 of a run with time step 1, amplitude 7 and the frequency \<open>5033165 / 4194304\<close>:
  the elapsed time is 1, which is \<open>1.2f / f0\<close>.\<close>

definition peak_ctx :: ctx_t where
  "peak_ctx =
     zero_ctx\<lparr>time := (time zero_ctx)\<lparr>dt := 1, it := 2\<rparr>,
              src := (src zero_ctx)\<lparr>f0 := 5033165 / 4194304, factor := 7\<rparr>\<rparr>"

text \<open>The same step with the frequency 1.2: the elapsed time is 1, which is \<open>1.2 / f0\<close>.\<close>

definition nominal_ctx :: ctx_t where
  "nominal_ctx =
     zero_ctx\<lparr>time := (time zero_ctx)\<lparr>dt := 1, it := 2\<rparr>,
              src := (src zero_ctx)\<lparr>f0 := 1.2, factor := 7\<rparr>\<rparr>"


text \<open>The grid information of a run on one process: the owned box is the whole grid.\<close>

definition one_process :: "PetscInt \<Rightarrow> PetscInt \<Rightarrow> PetscInt \<Rightarrow> DMDALocalInfo" where
  "one_process a b c =
     \<lparr>mx = a, my = b, mz = c, xs = 0, ys = 0, zs = 0, xm = a, ym = b, zm = c\<rparr>"

text \<open>
  Step 1 on a grid of 4 by 3 by 3 nodes, set up as \<open>main\<close> does, with a history that is 1
  at the node \<open>(k, j, i) = (1, 1, 1)\<close> one step back and 0 elsewhere. The interior nodes are
  \<open>(1, 1, 1)\<close> and the source node \<open>(1, 1, 2)\<close>.
\<close>

definition rhs_ctx :: ctx_t where
  "rhs_ctx =
     (let c = main_setup zero_ctx (one_process 4 3 3)
      in c\<lparr>wf := (wf c)\<lparr>uxm1 := (\<lambda>p. if p = (1, 1, 1) then 1 else 0)\<rparr>,
            time := (time c)\<lparr>it := 1\<rparr>\<rparr>)"


text \<open>Arrays that hold zeros on entry to \<open>compute_A_ux\<close>.\<close>

definition zero_stack :: "(nat \<Rightarrow> MatStencil) \<times> (nat \<Rightarrow> PetscScalar)" where
  "zero_stack = ((\<lambda>m. (0, 0, 0)), (\<lambda>m. 0))"

text \<open>The context that \<open>main\<close> sets up on a grid of 3 by 3 by 3 nodes; its one interior
  node is \<open>(1, 1, 1)\<close>.\<close>

definition cube_ctx :: ctx_t where
  "cube_ctx = main_setup zero_ctx (one_process 3 3 3)"


text \<open>The state in which the time loop starts on that grid, with \<open>b\<close> holding zeros.\<close>

definition cube_start :: run_state where
  "cube_start = \<lparr>st_ctx = cube_ctx, st_b = (\<lambda>p. 0), st_A = None\<rparr>"

text \<open>A linear solver that never fails: it returns the right-hand side.\<close>

definition echo_solve :: "Mat \<Rightarrow> Vec \<Rightarrow> Vec \<Rightarrow> Vec option" where
  "echo_solve A b x = Some b"


section \<open>The loops visit each owned node once\<close>

lemma node_range_mem:
  "w \<in> set (node_range s m) \<longleftrightarrow> unat s \<le> unat w \<and> unat w < unat (s + m)"
proof
  assume "w \<in> set (node_range s m)"
  then obtain n where n: "unat s \<le> n" "n < unat (s + m)" "w = word_of_nat n"
    by (auto simp: node_range_def)
  have "unat (s + m) < 2 ^ 32" using unsigned_less [of "s + m"] by simp
  with n have "unat w = n" by (simp add: unat_of_nat)
  with n show "unat s \<le> unat w \<and> unat w < unat (s + m)" by simp
next
  assume "unat s \<le> unat w \<and> unat w < unat (s + m)"
  then have "unat w \<in> set [unat s ..< unat (s + m)]" by simp
  then have "word_of_nat (unat w) \<in> set (node_range s m)"
    unfolding node_range_def by (simp only: set_map image_eqI)
  then show "w \<in> set (node_range s m)" by simp
qed

lemma fold_store_set:
  assumes "\<And>x b q. F x b q = (if q \<in> S x then h q else b q)"
  shows "fold F l b q = (if q \<in> (\<Union>x\<in>set l. S x) then h q else b q)"
  by (induction l arbitrary: b) (auto simp: assms)

lemma update_b_ux_loops_at:
  "update_b_ux_loops g c b p = (if owns g p then b_node g c p else b p)"
proof -
  let ?h = "b_node g c"
  have l1: "fold (\<lambda>i b. b((k, j, i) := ?h (k, j, i))) ir b q
      = (if q \<in> (\<Union>i\<in>set ir. {(k, j, i)}) then ?h q else b q)" for k j ir b q
    by (rule fold_store_set) simp
  have l2: "fold (\<lambda>j. fold (\<lambda>i b. b((k, j, i) := ?h (k, j, i))) ir) jr b q
      = (if q \<in> (\<Union>j\<in>set jr. \<Union>i\<in>set ir. {(k, j, i)}) then ?h q else b q)" for k ir jr b q
    by (rule fold_store_set) (rule l1)
  have l3: "fold (\<lambda>k. fold (\<lambda>j. fold (\<lambda>i b. b((k, j, i) := ?h (k, j, i))) ir) jr) kr b q
      = (if q \<in> (\<Union>k\<in>set kr. \<Union>j\<in>set jr. \<Union>i\<in>set ir. {(k, j, i)}) then ?h q else b q)"
    for ir jr kr b q
    by (rule fold_store_set) (rule l2)
  show ?thesis
    unfolding update_b_ux_loops_def l3 owns_def
    by (cases p) auto
qed

lemma node_range_below:
  assumes "w \<in> set (node_range s m)"
  shows "unat w < unat s + unat m"
proof -
  have "unat (s + m) \<le> unat s + unat m"
    by (simp add: unat_word_ariths)
  with assms show ?thesis by (simp add: node_range_mem)
qed

lemma owns_in_grid:
  assumes "DMDA_ok g" "owns g (k, j, i)"
  shows "i < mx g \<and> j < my g \<and> k < mz g"
proof -
  from assms(2) have "unat i < unat (xs g) + unat (xm g)"
    "unat j < unat (ys g) + unat (ym g)" "unat k < unat (zs g) + unat (zm g)"
    by (simp_all add: owns_def node_range_below)
  with assms(1) show ?thesis
    by (simp add: DMDA_ok_def word_less_nat_alt)
qed

section \<open>The right-hand side that the loops assemble\<close>

lemma rhs_ctx_simps:
  "uxm1 (wf rhs_ctx) = (\<lambda>p. if p = (1, 1, 1) then 1 else 0)"
  "uxm2 (wf rhs_ctx) = (\<lambda>p. 0)" "uxm3 (wf rhs_ctx) = (\<lambda>p. 0)"
  "rho (model rhs_ctx) = (\<lambda>p. 1000)" "dt (time rhs_ctx) = 5 / 36"
  "isrc (src rhs_ctx) = 2" "jsrc (src rhs_ctx) = 1" "ksrc (src rhs_ctx) = 1"
  "dx (model rhs_ctx) = 250" "dy (model rhs_ctx) = 1000 / 3" "dz (model rhs_ctx) = 1000 / 3"
  "f0 (src rhs_ctx) = 70" "factor (src rhs_ctx) = 10 ^ 10" "angle_force (src rhs_ctx) = 90"
  "it (time rhs_ctx) = 1"
  by (simp_all add: rhs_ctx_def main_setup_def zero_ctx_def one_process_def Let_def signed_divide_int_def)

lemma one_process_owns:
  "owns (one_process a b c) (k, j, i) \<longleftrightarrow> k < c \<and> j < b \<and> i < a"
  by (simp add: owns_def one_process_def node_range_mem word_less_nat_alt)

lemma one_process_ok: "DMDA_ok (one_process a b c)"
  by (simp add: DMDA_ok_def one_process_def)

lemma h_433: "hx (one_process 4 3 3) = 1 / 3" "hy (one_process 4 3 3) = 1 / 2" "hz (one_process 4 3 3) = 1 / 2"
  by (simp_all add: hx_def hy_def hz_def one_process_def)

lemma bd_433: "\<not> on_boundary (one_process 4 3 3) (1, 1, 2)" "\<not> on_boundary (one_process 4 3 3) (1, 1, 1)"
  by (simp_all add: on_boundary_def one_process_def)

lemma fx_rhs_ctx: "fx (src (source_term rhs_ctx)) \<noteq> 0"
proof -
  have "0 < (90 * PI / 180 :: real)" by (simp add: PI_def)
  moreover have "(90 * PI / 180 :: real) < pi"
    using pi_ge_two by (simp add: PI_def)
  ultimately have s: "sin (90 * PI / 180) \<noteq> 0"
    using sin_gt_zero by fastforce
  have w: "wavelet (10 ^ 10) 70 0 \<noteq> 0"
    by (simp add: wavelet_def float_1_2_def Let_def PI_def power2_eq_square)
  have "elapsed rhs_ctx = 0" by (simp add: elapsed_def rhs_ctx_simps)
  with s w show ?thesis
    by (simp add: source_term_def Let_def rhs_ctx_simps)
qed

text \<open>
  Claim C1, as amended. For every node that the loops of \<open>update_b_ux\<close> visit, the vector
  they assemble, which \<open>update_b_ux\<close> then hands to \<open>MatNullSpaceRemove\<close>, is 0 where an
  index of the node is 0 or its node count less one, and at every other node it is
  \<open>hx * hy * hz * (5 * u[n-1] - 4 * u[n-2] + u[n-3] + s)\<close>, where \<open>hx = 1 / (mx - 1)\<close>,
  \<open>hy = 1 / (my - 1)\<close>, \<open>hz = 1 / (mz - 1)\<close> and \<open>s\<close> is \<open>dt\<^sup>2 / density * fx\<close> at the source node
  \<open>(ksrc, jsrc, isrc)\<close> and 0 at every other node: the source term lies inside the scaling
  factor. \<open>fx\<close> is the force that \<open>source_term\<close> has just stored.
\<close>

theorem rhs_assembled:
  assumes "DMDA_ok g" and "owns g (k, j, i)" and "rho (model c) (k, j, i) \<noteq> 0"
  shows "update_b_ux MatNullSpaceRemove g b c
           = (MatNullSpaceRemove (update_b_ux_loops g (source_term c) b), source_term c)
       \<and> update_b_ux_loops g (source_term c) b (k, j, i)
           = (if on_boundary g (k, j, i) then 0
              else hx g * hy g * hz g
                   * (5 * uxm1 (wf c) (k, j, i) - 4 * uxm2 (wf c) (k, j, i)
                      + uxm3 (wf c) (k, j, i)
                      + (if i = isrc (src c) \<and> j = jsrc (src c) \<and> k = ksrc (src c)
                         then (dt (time c))\<^sup>2 / rho (model c) (k, j, i)
                              * fx (src (source_term c))
                         else 0)))"
proof -
  have same: "wf (source_term c) = wf c" "model (source_term c) = model c"
    "time (source_term c) = time c" "isrc (src (source_term c)) = isrc (src c)"
    "jsrc (src (source_term c)) = jsrc (src c)" "ksrc (src (source_term c)) = ksrc (src c)"
    by (simp_all add: source_term_def Let_def)
  show ?thesis
    using assms(2)
    by (simp add: update_b_ux_def Let_def update_b_ux_loops_at b_node_def same)
qed


theorem rhs_assembled_witness:
  "DMDA_ok (one_process 4 3 3) \<and> owns (one_process 4 3 3) (1, 1, 2)
   \<and> rho (model rhs_ctx) (1, 1, 2) \<noteq> 0
   \<and> update_b_ux (\<lambda>b. b) (one_process 4 3 3) (\<lambda>p. 0) rhs_ctx
       = (update_b_ux_loops (one_process 4 3 3) (source_term rhs_ctx) (\<lambda>p. 0),
          source_term rhs_ctx)
   \<and> update_b_ux_loops (one_process 4 3 3) (source_term rhs_ctx) (\<lambda>p. 0) (1, 1, 2)
       = 1 / 3 * (1 / 2) * (1 / 2) * ((5 / 36)\<^sup>2 / 1000 * fx (src (source_term rhs_ctx)))"
proof -
  have ok: "DMDA_ok (one_process 4 3 3)" by (rule one_process_ok)
  have own: "owns (one_process 4 3 3) (1, 1, 2)" by (simp add: one_process_owns)
  have dens: "rho (model rhs_ctx) (1, 1, 2) \<noteq> 0" by (simp add: rhs_ctx_simps)
  from rhs_assembled [OF ok own dens, of "\<lambda>b. b" "\<lambda>p. 0"] ok own dens
  show ?thesis
    by (simp add: bd_433 h_433 rhs_ctx_simps)
qed

text \<open>
  The claim as stated fails on the grid of 4 by 3 by 3 nodes that \<open>main\<close> sets up, at
  step 1. At the source node, where the history is 0, the assembled value is the source
  term times \<open>hx * hy * hz = 1 / 12\<close>, not the source term. At the interior node beside
  it the assembled value is \<open>5 / 12\<close>, not \<open>dx * dy * dz * 5\<close> with the spacings
  \<open>dx = xmax / nx\<close> of the model.
\<close>

theorem rhs_source_term_counterexample:
  "update_b_ux_loops (one_process 4 3 3) (source_term rhs_ctx) (\<lambda>p. 0) (1, 1, 2)
     \<noteq> dx (model rhs_ctx) * dy (model rhs_ctx) * dz (model rhs_ctx)
         * (5 * uxm1 (wf rhs_ctx) (1, 1, 2) - 4 * uxm2 (wf rhs_ctx) (1, 1, 2)
            + 1 * uxm3 (wf rhs_ctx) (1, 1, 2))
       + (dt (time rhs_ctx))\<^sup>2 / rho (model rhs_ctx) (1, 1, 2) * fx (src (source_term rhs_ctx))
   \<and> update_b_ux_loops (one_process 4 3 3) (source_term rhs_ctx) (\<lambda>p. 0) (1, 1, 1)
     \<noteq> dx (model rhs_ctx) * dy (model rhs_ctx) * dz (model rhs_ctx)
         * (5 * uxm1 (wf rhs_ctx) (1, 1, 1) - 4 * uxm2 (wf rhs_ctx) (1, 1, 1)
            + 1 * uxm3 (wf rhs_ctx) (1, 1, 1))"
proof -
  have same: "wf (source_term rhs_ctx) = wf rhs_ctx" "model (source_term rhs_ctx) = model rhs_ctx"
    "time (source_term rhs_ctx) = time rhs_ctx"
    "isrc (src (source_term rhs_ctx)) = 2" "jsrc (src (source_term rhs_ctx)) = 1"
    "ksrc (src (source_term rhs_ctx)) = 1"
    by (simp_all add: source_term_def Let_def rhs_ctx_simps)
  have at_source:
    "update_b_ux_loops (one_process 4 3 3) (source_term rhs_ctx) (\<lambda>p. 0) (1, 1, 2)
       = 1 / 12 * ((5 / 36)\<^sup>2 / 1000 * fx (src (source_term rhs_ctx)))"
    by (simp add: update_b_ux_loops_at one_process_owns b_node_def bd_433 h_433 same
        rhs_ctx_simps Let_def)
  have beside:
    "update_b_ux_loops (one_process 4 3 3) (source_term rhs_ctx) (\<lambda>p. 0) (1, 1, 1) = 5 / 12"
    by (simp add: update_b_ux_loops_at one_process_owns b_node_def bd_433 h_433 same
        rhs_ctx_simps Let_def)
  show ?thesis
    unfolding at_source beside using fx_rhs_ctx
    by (simp add: rhs_ctx_simps)
qed

section \<open>A row of the operator\<close>

lemma holds_add_column:
  assumes "holds st es" and "length es < 7"
  shows "\<exists>st'. add_column col x st = Some st' \<and> holds st' (es @ [(col, x)])"
proof -
  obtain n idxn v where st: "st = (n, idxn, v)" by (cases st) auto
  from assms(1) have n: "n = length es" and es: "\<forall>m<n. (idxn m, v m) = es ! m"
    unfolding holds_def st prod.case by blast+
  from es have "holds (n + 1, idxn(n := col), v(n := x)) (es @ [(col, x)])"
    by (simp add: holds_def n nth_append)
  with assms(2) show ?thesis
    by (simp add: add_column_def st n)
qed

lemma holds_add_column_if:
  assumes "\<exists>st. X = Some st \<and> holds st es" and "length es < 7"
  shows "\<exists>st'. Option.bind X (add_column_if test col x) = Some st'
           \<and> holds st' (es @ (if test then [(col, x)] else []))"
proof -
  from assms(1) obtain st where X: "X = Some st" and h: "holds st es" by blast
  show ?thesis
  proof (cases test)
    case True
    with holds_add_column [OF h assms(2), of col x] show ?thesis
      by (simp add: X add_column_if_def)
  next
    case False
    with h show ?thesis by (simp add: X add_column_if_def)
  qed
qed

lemma holds_diagonal:
  assumes "holds (n, idxn, v) ((p, d) # es)"
  shows "holds (n, idxn, v(0 := v 0 + e)) ((p, d + e) # es)"
proof -
  from assms have n: "n = length ((p, d) # es)"
    and l: "\<forall>m<n. (idxn m, v m) = ((p, d) # es) ! m"
    unfolding holds_def prod.case by blast+
  have "(idxn m, (v(0 := v 0 + e)) m) = ((p, d + e) # es) ! m" if "m < n" for m
    using l [rule_format, OF that] l [rule_format, of 0] n
    by (cases m) auto
  with n show ?thesis
    by (simp add: holds_def)
qed

lemma stencil_row_holds:
  "\<exists>st. stencil_row g c p (idxn, v) = Some st \<and> holds st (row_entries g c p)"
proof -
  obtain k j i where p: "p = (k, j, i)" by (cases p) auto
  show ?thesis
  proof (cases "on_boundary g (k, j, i)")
    case True
    then show ?thesis
      by (simp add: stencil_row_def row_entries_def p holds_def Let_def)
  next
    case False
    define a where "a = c11 (model c) (k, j, i) * (dt (time c) * dt (time c)) / rho (model c) (k, j, i)"
    define d where "d = a * 2 * (hy g * hz g / hx g + hx g * hz g / hy g + hx g * hy g / hz g)"
    let ?x = "- c11 (model c) (k, j, i) * (dt (time c) * dt (time c)) / rho (model c) (k, j, i)"
    let ?r1 = "if 0 < i - 1 then [((k, j, i - 1), ?x * (hy g * hz g / hx g))] else []"
    let ?r2 = "if i + 1 < mx g - 1 then [((k, j, i + 1), ?x * (hy g * hz g / hx g))] else []"
    let ?r3 = "if 0 < j - 1 then [((k, j - 1, i), ?x * (hx g * hz g / hy g))] else []"
    let ?r4 = "if j + 1 < my g - 1 then [((k, j + 1, i), ?x * (hx g * hz g / hy g))] else []"
    let ?r5 = "if 0 < k - 1 then [((k - 1, j, i), ?x * (hx g * hy g / hz g))] else []"
    let ?r6 = "if k + 1 < mz g - 1 then [((k + 1, j, i), ?x * (hx g * hy g / hz g))] else []"
    let ?s0 = "Some (1::nat, idxn(0 := (k, j, i)), v(0 := d))"
    have s0: "\<exists>st. ?s0 = Some st \<and> holds st [((k, j, i), d)]"
      by (simp add: holds_def)
    note s1 = holds_add_column_if [OF s0, of "0 < i - 1" "(k, j, i - 1)" "?x * (hy g * hz g / hx g)"]
    have l1: "length ([((k, j, i), d)] @ ?r1) < 7" by simp
    note s2 = holds_add_column_if [OF s1 l1, of "i + 1 < mx g - 1" "(k, j, i + 1)" "?x * (hy g * hz g / hx g)"]
    have l2: "length (([((k, j, i), d)] @ ?r1) @ ?r2) < 7" by simp
    note s3 = holds_add_column_if [OF s2 l2, of "0 < j - 1" "(k, j - 1, i)" "?x * (hx g * hz g / hy g)"]
    have l3: "length ((([((k, j, i), d)] @ ?r1) @ ?r2) @ ?r3) < 7" by simp
    note s4 = holds_add_column_if [OF s3 l3, of "j + 1 < my g - 1" "(k, j + 1, i)" "?x * (hx g * hz g / hy g)"]
    have l4: "length (((([((k, j, i), d)] @ ?r1) @ ?r2) @ ?r3) @ ?r4) < 7" by simp
    note s5 = holds_add_column_if [OF s4 l4, of "0 < k - 1" "(k - 1, j, i)" "?x * (hx g * hy g / hz g)"]
    have l5: "length ((((([((k, j, i), d)] @ ?r1) @ ?r2) @ ?r3) @ ?r4) @ ?r5) < 7" by simp
    note s6 = holds_add_column_if [OF s5 l5, of "k + 1 < mz g - 1" "(k + 1, j, i)" "?x * (hx g * hy g / hz g)"]
    from s6 obtain n6 idxn6 v6 where
      run: "Option.bind (Option.bind (Option.bind (Option.bind (Option.bind (Option.bind ?s0
              (add_column_if (0 < i - 1) (k, j, i - 1) (?x * (hy g * hz g / hx g))))
              (add_column_if (i + 1 < mx g - 1) (k, j, i + 1) (?x * (hy g * hz g / hx g))))
              (add_column_if (0 < j - 1) (k, j - 1, i) (?x * (hx g * hz g / hy g))))
              (add_column_if (j + 1 < my g - 1) (k, j + 1, i) (?x * (hx g * hz g / hy g))))
              (add_column_if (0 < k - 1) (k - 1, j, i) (?x * (hx g * hy g / hz g))))
              (add_column_if (k + 1 < mz g - 1) (k + 1, j, i) (?x * (hx g * hy g / hz g)))
            = Some (n6, idxn6, v6)"
      and h6: "holds (n6, idxn6, v6) (((k, j, i), d) # ?r1 @ ?r2 @ ?r3 @ ?r4 @ ?r5 @ ?r6)"
      by auto
    from holds_diagonal [OF h6, of "2 * hx g * hy g * hz g"]
    have hfin: "holds (n6, idxn6, v6(0 := v6 0 + 2 * hx g * hy g * hz g)) (row_entries g c p)"
      using False by (simp add: row_entries_def p Let_def d_def a_def)
    have "stencil_row g c p (idxn, v) = Some (n6, idxn6, v6(0 := v6 0 + 2 * hx g * hy g * hz g))"
      using False run by (simp add: stencil_row_def p Let_def d_def a_def)
    with hfin show ?thesis by blast
  qed
qed

section \<open>The operator that the loops assemble\<close>

lemma distinct_node_range: "distinct (node_range s m)"
proof -
  have "inj_on (word_of_nat :: nat \<Rightarrow> 32 word) (set [unat s ..< unat (s + m)])"
  proof (rule inj_onI)
    fix a b :: nat
    assume a: "a \<in> set [unat s ..< unat (s + m)]" and b: "b \<in> set [unat s ..< unat (s + m)]"
      and eq: "(word_of_nat a :: 32 word) = word_of_nat b"
    have "unat (s + m) < 2 ^ 32" using unsigned_less [of "s + m"] by simp
    with a b have "a < 2 ^ 32" "b < 2 ^ 32" by simp_all
    then have "unat (word_of_nat a :: 32 word) = a" "unat (word_of_nat b :: 32 word) = b"
      by (simp_all add: unat_of_nat)
    with eq show "a = b" by metis
  qed
  then show ?thesis by (simp add: node_range_def distinct_map)
qed

lemma fold_insert_range:
  "fold (\<lambda>m r. r(idxn m \<mapsto> v m)) [0..<n] r0
     = r0 ++ map_of (rev (map (\<lambda>m. (idxn m, v m)) [0..<n]))"
proof (induction n)
  case 0
  show ?case by simp
next
  case (Suc n)
  have "fold (\<lambda>m r. r(idxn m \<mapsto> v m)) [0..<Suc n] r0
      = (fold (\<lambda>m r. r(idxn m \<mapsto> v m)) [0..<n] r0)(idxn n \<mapsto> v n)"
    by (simp only: upt_Suc_append [OF le0] fold_append fold.simps comp_apply id_apply)
  also have "\<dots> = (r0 ++ map_of (rev (map (\<lambda>m. (idxn m, v m)) [0..<n])))(idxn n \<mapsto> v n)"
    by (simp only: Suc.IH)
  also have "\<dots> = r0 ++ (map_of (rev (map (\<lambda>m. (idxn m, v m)) [0..<n])))(idxn n \<mapsto> v n)"
    by (simp only: map_add_upd)
  also have "(map_of (rev (map (\<lambda>m. (idxn m, v m)) [0..<n])))(idxn n \<mapsto> v n)
      = map_of (rev (map (\<lambda>m. (idxn m, v m)) [0..<Suc n]))"
    by (simp only: upt_Suc_append [OF le0] map_append list.map rev_append rev.simps
        append_Nil append_Cons map_of.simps fst_conv snd_conv)
  finally show ?case .
qed

lemma holds_list:
  assumes "holds (n, idxn, v) es"
  shows "map (\<lambda>m. (idxn m, v m)) [0..<n] = es"
proof -
  from assms have n: "n = length es" and es: "\<forall>m<n. (idxn m, v m) = es ! m"
    unfolding holds_def prod.case by blast+
  show ?thesis
    by (rule nth_equalityI) (simp_all add: n es [unfolded n])
qed

lemma insert_node_row_result:
  "\<exists>idxn' v'. insert_node_row g c p (idxn, v, A)
     = Some (idxn', v', A(p := A p ++ map_of (rev (row_entries g c p))))"
proof -
  from stencil_row_holds [of g c p idxn v] obtain n idxn' v'
    where row: "stencil_row g c p (idxn, v) = Some (n, idxn', v')"
      and h: "holds (n, idxn', v') (row_entries g c p)"
    by auto
  show ?thesis
    by (simp add: insert_node_row_def row MatSetValuesStencil_def fold_insert_range
        holds_list [OF h])
qed

lemma for_nodes_append:
  "for_nodes (l @ l') f s = (case for_nodes l f s of None \<Rightarrow> None | Some s' \<Rightarrow> for_nodes l' f s')"
  by (induction l arbitrary: s) (auto split: option.splits)

lemma for_nodes_map: "for_nodes (map h l) f s = for_nodes l (\<lambda>x. f (h x)) s"
  by (induction l arbitrary: s) (auto split: option.splits)

lemma for_nodes_product:
  "for_nodes l1 (\<lambda>x. for_nodes l2 (\<lambda>y. f (x, y))) s = for_nodes (List.product l1 l2) f s"
  by (induction l1 arbitrary: s) (auto simp: for_nodes_append for_nodes_map split: option.splits)

lemma for_nodes_rows:
  assumes step: "\<And>x idxn v A. \<exists>idxn' v'. f x (idxn, v, A) = Some (idxn', v', A(x := A x ++ M x))"
    and "distinct l"
  shows "\<exists>idxn' v'. for_nodes l f (idxn, v, A)
           = Some (idxn', v', (\<lambda>q. if q \<in> set l then A q ++ M q else A q))"
  using assms(2)
proof (induction l arbitrary: idxn v A)
  case Nil
  then show ?case by simp
next
  case (Cons x l)
  from step [of x idxn v A] obtain idxn1 v1
    where first: "f x (idxn, v, A) = Some (idxn1, v1, A(x := A x ++ M x))" by blast
  from Cons.prems have "distinct l" and fresh: "x \<notin> set l" by simp_all
  from Cons.IH [OF \<open>distinct l\<close>, of idxn1 v1 "A(x := A x ++ M x)"] obtain idxn2 v2
    where rest: "for_nodes l f (idxn1, v1, A(x := A x ++ M x))
       = Some (idxn2, v2, (\<lambda>q. if q \<in> set l then (A(x := A x ++ M x)) q ++ M q
                                else (A(x := A x ++ M x)) q))"
    by blast
  have eq: "(\<lambda>q. if q \<in> set l then (A(x := A x ++ M x)) q ++ M q else (A(x := A x ++ M x)) q)
      = (\<lambda>q. if q \<in> set (x # l) then A q ++ M q else A q)"
    using fresh by auto
  have "for_nodes (x # l) f (idxn, v, A)
      = Some (idxn2, v2, (\<lambda>q. if q \<in> set (x # l) then A q ++ M q else A q))"
    unfolding for_nodes.simps first option.case rest eq ..
  then show ?case by blast
qed

lemma compute_A_ux_rows:
  "\<exists>idxn' v'. compute_A_ux g c (idxn, v, A)
     = Some (idxn', v',
             (\<lambda>q. if owns g q then A q ++ map_of (rev (row_entries g c q)) else A q))"
proof -
  let ?l = "List.product (node_range (zs g) (zm g))
              (List.product (node_range (ys g) (ym g)) (node_range (xs g) (xm g)))"
  have inner: "for_nodes (node_range (ys g) (ym g))
                  (\<lambda>j. for_nodes (node_range (xs g) (xm g)) (\<lambda>i. insert_node_row g c (k, j, i)))
      = for_nodes (List.product (node_range (ys g) (ym g)) (node_range (xs g) (xm g)))
          (\<lambda>y. insert_node_row g c (k, y))" for k
    by (rule ext)
       (rule for_nodes_product [of "node_range (ys g) (ym g)" "node_range (xs g) (xm g)"
             "\<lambda>y. insert_node_row g c (k, y)"])
  have flat: "compute_A_ux g c = for_nodes ?l (insert_node_row g c)"
    unfolding compute_A_ux_def inner
    by (rule ext) (rule for_nodes_product)
  have d: "distinct ?l"
    by (intro distinct_product distinct_node_range)
  have o: "q \<in> set ?l \<longleftrightarrow> owns g q" for q
    by (cases q) (auto simp: owns_def)
  from for_nodes_rows [of "insert_node_row g c" "\<lambda>q. map_of (rev (row_entries g c q))" ?l idxn v A,
      OF insert_node_row_result d]
  show ?thesis
    unfolding flat o .
qed

lemma map_of_rev_distinct:
  assumes "distinct (map fst es)"
  shows "map_of (rev es) = map_of es"
proof (rule ext)
  fix q
  from assms have d: "distinct (map fst (rev es))" by (simp add: rev_map [symmetric])
  show "map_of (rev es) q = map_of es q"
  proof (cases "map_of es q")
    case None
    then have "q \<notin> fst ` set (rev es)" by (simp add: map_of_eq_None_iff)
    then have "map_of (rev es) q = None" by (simp add: map_of_eq_None_iff)
    with None show ?thesis by simp
  next
    case (Some x)
    with assms have "(q, x) \<in> set (rev es)" by simp
    with d have "map_of (rev es) q = Some x" by (simp add: rev_map [symmetric])
    with Some show ?thesis by simp
  qed
qed

lemma word32_step:
  fixes i :: "32 word"
  shows "i - 1 \<noteq> i" "i + 1 \<noteq> i" "i - 1 \<noteq> i + 1" "i + 1 \<noteq> i - 1"
proof -
  show "i - 1 \<noteq> i" by simp
  show "i + 1 \<noteq> i" by simp
  show ne: "i - 1 \<noteq> i + 1"
  proof
    assume "i - 1 = i + 1"
    then have "(i - 1) - i = (i + 1) - i" by simp
    then show False by simp
  qed
  then show "i + 1 \<noteq> i - 1" by (rule not_sym)
qed

lemma row_entries_distinct: "distinct (map fst (row_entries g c p))"
  by (cases p) (simp add: row_entries_def Let_def word32_step)

lemma row_entries_length:
  "1 \<le> length (row_entries g c p) \<and> length (row_entries g c p) \<le> 7"
  by (cases p) (simp add: row_entries_def Let_def)

lemma assemble_rows:
  "assemble stack g c
     = Some (\<lambda>q. if owns g q then map_of (row_entries g c q) else Map.empty)"
proof -
  from compute_A_ux_rows [of g c "fst stack" "snd stack" "\<lambda>p. Map.empty"]
  obtain idxn' v' where
    "compute_A_ux g c (fst stack, snd stack, (\<lambda>p. Map.empty))
       = Some (idxn', v', (\<lambda>q. if owns g q then Map.empty ++ map_of (rev (row_entries g c q))
                                else Map.empty))"
    by blast
  then show ?thesis
    by (simp add: assemble_def map_of_rev_distinct [OF row_entries_distinct] cong: if_cong)
qed

lemma interior_axis:
  fixes i m :: "32 word"
  assumes "i < m" and "i \<noteq> 0" and "i \<noteq> m - 1"
  shows "0 < unat i \<and> unat i + 1 < unat m
       \<and> unat (i - 1) = unat i - 1 \<and> unat (i + 1) = unat i + 1
       \<and> unat (m - 1) = unat m - 1"
proof -
  from assms(1) have lt: "unat i < unat m" by (simp add: word_less_nat_alt)
  then have "m \<noteq> 0" by auto
  then have m1: "unat (m - 1) = unat m - 1" by (rule unat_minus_one)
  from assms(2) have pos: "0 < unat i" by (simp add: unat_gt_0)
  from assms(2) have i1: "unat (i - 1) = unat i - 1" by (rule unat_minus_one)
  from assms(3) have "unat i \<noteq> unat (m - 1)" by (simp add: word_unat_eq_iff)
  with lt m1 have below: "unat i + 1 < unat m" by simp
  have "unat m < 2 ^ 32" using unsigned_less [of m] by simp
  with below have "unat (i + 1) = unat i + 1"
    by (simp add: unat_word_ariths)
  with pos below i1 m1 show ?thesis by simp
qed

section \<open>Properties of the operator\<close>

lemma cube_ctx_simps:
  "c11 (model cube_ctx) = (\<lambda>p. 1800)" "rho (model cube_ctx) = (\<lambda>p. 1000)"
  "dt (time cube_ctx) = 5 / 27"
  "dx (model cube_ctx) = 1000 / 3" "dy (model cube_ctx) = 1000 / 3" "dz (model cube_ctx) = 1000 / 3"
  by (simp_all add: cube_ctx_def main_setup_def zero_ctx_def one_process_def Let_def)

lemma h_333:
  "hx (one_process 3 3 3) = 1 / 2" "hy (one_process 3 3 3) = 1 / 2" "hz (one_process 3 3 3) = 1 / 2"
  by (simp_all add: hx_def hy_def hz_def one_process_def)

lemma bd_333: "\<not> on_boundary (one_process 3 3 3) (1, 1, 1)"
  by (simp add: on_boundary_def one_process_def)

lemma row_entries_boundary:
  "on_boundary g p \<Longrightarrow> row_entries g c p = [(p, 1)]"
  by (cases p) (simp add: row_entries_def Let_def)

text \<open>
  Claim C10. For every node, whatever the arrays held before, the row is built without a
  write outside the seven elements of \<open>idxn\<close> and \<open>v\<close>, and the count handed to
  \<open>MatSetValuesStencil\<close> is at least 1 and at most 7; it is 1 for a boundary node. Hence
  \<open>compute_A_ux\<close> as a whole runs through without a fault.
\<close>

theorem stencil_count_in_bounds:
  "(\<exists>n idxn' v'. stencil_row g c p (idxn, v) = Some (n, idxn', v')
       \<and> 1 \<le> n \<and> n \<le> 7 \<and> (on_boundary g p \<longrightarrow> n = 1))
   \<and> compute_A_ux g c (idxn, v, A) \<noteq> None"
proof -
  from stencil_row_holds [of g c p idxn v] obtain n idxn' v'
    where row: "stencil_row g c p (idxn, v) = Some (n, idxn', v')"
      and h: "holds (n, idxn', v') (row_entries g c p)"
    by auto
  from h have n: "n = length (row_entries g c p)"
    unfolding holds_def prod.case by blast
  with row_entries_length [of g c p] have "1 \<le> n" "n \<le> 7" by simp_all
  moreover have "on_boundary g p \<longrightarrow> n = 1"
    by (simp add: n row_entries_boundary)
  moreover from compute_A_ux_rows [of g c idxn v A]
  have "compute_A_ux g c (idxn, v, A) \<noteq> None" by auto
  ultimately show ?thesis using row by blast
qed

theorem stencil_count_in_bounds_witness:
  "on_boundary (one_process 3 3 3) (0, 0, 0)
   \<and> (\<exists>n idxn' v'. stencil_row (one_process 3 3 3) zero_ctx (0, 0, 0) (fst zero_stack, snd zero_stack)
                      = Some (n, idxn', v') \<and> 1 \<le> n \<and> n \<le> 7 \<and> n = 1)
   \<and> compute_A_ux (one_process 3 3 3) zero_ctx (fst zero_stack, snd zero_stack, (\<lambda>p. Map.empty))
       \<noteq> None"
proof -
  have b: "on_boundary (one_process 3 3 3) (0, 0, 0)"
    by (simp add: on_boundary_def)
  from stencil_count_in_bounds [of "one_process 3 3 3" zero_ctx "(0, 0, 0)"
      "fst zero_stack" "snd zero_stack" "\<lambda>p. Map.empty"] b
  show ?thesis by blast
qed

text \<open>
  Claim C4. For every boundary node that the loops visit (an index is 0 or its node count
  less one), the only entry set in the row of the assembled operator is the diagonal
  one, and its value is 1.
\<close>

theorem boundary_row_identity:
  assumes "owns g p" and "on_boundary g p"
  shows "\<exists>A. assemble stack g c = Some A \<and> A p = [p \<mapsto> 1]"
  using assms by (simp add: assemble_rows row_entries_boundary)

theorem boundary_row_identity_witness:
  "owns (one_process 3 3 3) (0, 1, 2) \<and> on_boundary (one_process 3 3 3) (0, 1, 2)
   \<and> (\<exists>A. assemble zero_stack (one_process 3 3 3) zero_ctx = Some A
           \<and> A (0, 1, 2) = [(0, 1, 2) \<mapsto> 1])"
proof -
  have o: "owns (one_process 3 3 3) (0, 1, 2)" by (simp add: one_process_owns)
  have b: "on_boundary (one_process 3 3 3) (0, 1, 2)" by (simp add: on_boundary_def)
  from boundary_row_identity [OF o b, of zero_stack zero_ctx] o b
  show ?thesis by blast
qed

lemma row_entries_columns:
  assumes "\<not> on_boundary g (k, j, i)"
  shows "fst ` set (row_entries g c (k, j, i))
     = {(k, j, i)}
       \<union> (if 0 < i - 1 then {(k, j, i - 1)} else {})
       \<union> (if i + 1 < mx g - 1 then {(k, j, i + 1)} else {})
       \<union> (if 0 < j - 1 then {(k, j - 1, i)} else {})
       \<union> (if j + 1 < my g - 1 then {(k, j + 1, i)} else {})
       \<union> (if 0 < k - 1 then {(k - 1, j, i)} else {})
       \<union> (if k + 1 < mz g - 1 then {(k + 1, j, i)} else {})"
  using assms by (simp add: row_entries_def Let_def image_Un Un_assoc)

lemma interior_node:
  assumes "DMDA_ok g" and "owns g (k, j, i)" and "\<not> on_boundary g (k, j, i)"
  shows "i < mx g \<and> i \<noteq> 0 \<and> i \<noteq> mx g - 1
       \<and> j < my g \<and> j \<noteq> 0 \<and> j \<noteq> my g - 1
       \<and> k < mz g \<and> k \<noteq> 0 \<and> k \<noteq> mz g - 1"
  using owns_in_grid [OF assms(1,2)] assms(3) by (simp add: on_boundary_def)

text \<open>
  Claim C3. For every interior node and each of its six face neighbours, the assembled
  operator has an entry in the neighbour's column if and only if the index in which
  the neighbour differs is greater than 0 and less than the node count less one on that
  axis. The neighbour's index is the node's index less one or plus one, without
  wrap-around.
\<close>

theorem coupling_entries:
  assumes "DMDA_ok g" and "owns g (k, j, i)" and "\<not> on_boundary g (k, j, i)"
  shows "\<exists>A. assemble stack g c = Some A
     \<and> (A (k, j, i) (k, j, i - 1) \<noteq> None
          \<longleftrightarrow> 0 < unat (i - 1) \<and> unat (i - 1) < unat (mx g) - 1)
     \<and> (A (k, j, i) (k, j, i + 1) \<noteq> None
          \<longleftrightarrow> 0 < unat (i + 1) \<and> unat (i + 1) < unat (mx g) - 1)
     \<and> (A (k, j, i) (k, j - 1, i) \<noteq> None
          \<longleftrightarrow> 0 < unat (j - 1) \<and> unat (j - 1) < unat (my g) - 1)
     \<and> (A (k, j, i) (k, j + 1, i) \<noteq> None
          \<longleftrightarrow> 0 < unat (j + 1) \<and> unat (j + 1) < unat (my g) - 1)
     \<and> (A (k, j, i) (k - 1, j, i) \<noteq> None
          \<longleftrightarrow> 0 < unat (k - 1) \<and> unat (k - 1) < unat (mz g) - 1)
     \<and> (A (k, j, i) (k + 1, j, i) \<noteq> None
          \<longleftrightarrow> 0 < unat (k + 1) \<and> unat (k + 1) < unat (mz g) - 1)
     \<and> unat (i - 1) = unat i - 1 \<and> unat (i + 1) = unat i + 1
     \<and> unat (j - 1) = unat j - 1 \<and> unat (j + 1) = unat j + 1
     \<and> unat (k - 1) = unat k - 1 \<and> unat (k + 1) = unat k + 1"
proof -
  let ?A = "\<lambda>q. if owns g q then map_of (row_entries g c q) else Map.empty"
  note n = interior_node [OF assms]
  from n have x: "0 < unat i \<and> unat i + 1 < unat (mx g)
       \<and> unat (i - 1) = unat i - 1 \<and> unat (i + 1) = unat i + 1
       \<and> unat (mx g - 1) = unat (mx g) - 1"
    by (intro interior_axis) simp_all
  from n have y: "0 < unat j \<and> unat j + 1 < unat (my g)
       \<and> unat (j - 1) = unat j - 1 \<and> unat (j + 1) = unat j + 1
       \<and> unat (my g - 1) = unat (my g) - 1"
    by (intro interior_axis) simp_all
  from n have z: "0 < unat k \<and> unat k + 1 < unat (mz g)
       \<and> unat (k - 1) = unat k - 1 \<and> unat (k + 1) = unat k + 1
       \<and> unat (mz g - 1) = unat (mz g) - 1"
    by (intro interior_axis) simp_all
  have dom: "?A (k, j, i) q \<noteq> None \<longleftrightarrow> q \<in> fst ` set (row_entries g c (k, j, i))" for q
    using assms(2) by (simp add: map_of_eq_None_iff)
  have xm: "?A (k, j, i) (k, j, i - 1) \<noteq> None
          \<longleftrightarrow> 0 < unat (i - 1) \<and> unat (i - 1) < unat (mx g) - 1"
    unfolding dom row_entries_columns [OF assms(3)] using x
    by (auto simp: word32_step word_less_nat_alt)
  have xp: "?A (k, j, i) (k, j, i + 1) \<noteq> None
          \<longleftrightarrow> 0 < unat (i + 1) \<and> unat (i + 1) < unat (mx g) - 1"
    unfolding dom row_entries_columns [OF assms(3)] using x
    by (auto simp: word32_step word_less_nat_alt)
  have ym: "?A (k, j, i) (k, j - 1, i) \<noteq> None
          \<longleftrightarrow> 0 < unat (j - 1) \<and> unat (j - 1) < unat (my g) - 1"
    unfolding dom row_entries_columns [OF assms(3)] using y
    by (auto simp: word32_step word_less_nat_alt)
  have yp: "?A (k, j, i) (k, j + 1, i) \<noteq> None
          \<longleftrightarrow> 0 < unat (j + 1) \<and> unat (j + 1) < unat (my g) - 1"
    unfolding dom row_entries_columns [OF assms(3)] using y
    by (auto simp: word32_step word_less_nat_alt)
  have zm: "?A (k, j, i) (k - 1, j, i) \<noteq> None
          \<longleftrightarrow> 0 < unat (k - 1) \<and> unat (k - 1) < unat (mz g) - 1"
    unfolding dom row_entries_columns [OF assms(3)] using z
    by (auto simp: word32_step word_less_nat_alt)
  have zp: "?A (k, j, i) (k + 1, j, i) \<noteq> None
          \<longleftrightarrow> 0 < unat (k + 1) \<and> unat (k + 1) < unat (mz g) - 1"
    unfolding dom row_entries_columns [OF assms(3)] using z
    by (auto simp: word32_step word_less_nat_alt)
  from xm xp ym yp zm zp x y z show ?thesis
    unfolding assemble_rows by blast
qed

theorem coupling_entries_witness:
  "DMDA_ok (one_process 4 3 3) \<and> owns (one_process 4 3 3) (1, 1, 1)
   \<and> \<not> on_boundary (one_process 4 3 3) (1, 1, 1)
   \<and> (\<exists>A. assemble zero_stack (one_process 4 3 3) rhs_ctx = Some A
           \<and> A (1, 1, 1) (1, 1, 2) \<noteq> None \<and> A (1, 1, 1) (1, 1, 0) = None)"
proof -
  have ok: "DMDA_ok (one_process 4 3 3)" by (rule one_process_ok)
  have o: "owns (one_process 4 3 3) (1, 1, 1)" by (simp add: one_process_owns)
  have b: "\<not> on_boundary (one_process 4 3 3) (1, 1, 1)" by (rule bd_433)
  from coupling_entries [OF ok o b, of zero_stack rhs_ctx] obtain A
    where A: "assemble zero_stack (one_process 4 3 3) rhs_ctx = Some A"
      and m: "A (1, 1, 1) (1, 1, 1 - 1) \<noteq> None
          \<longleftrightarrow> 0 < unat (1 - 1 :: 32 word) \<and> unat (1 - 1 :: 32 word) < unat (mx (one_process 4 3 3)) - 1"
      and p: "A (1, 1, 1) (1, 1, 1 + 1) \<noteq> None
          \<longleftrightarrow> 0 < unat (1 + 1 :: 32 word) \<and> unat (1 + 1 :: 32 word) < unat (mx (one_process 4 3 3)) - 1"
    by blast
  from m have "A (1, 1, 1) (1, 1, 0) = None" by simp
  moreover from p have "A (1, 1, 1) (1, 1, 2) \<noteq> None" by (simp add: one_process_def)
  ultimately show ?thesis using ok o b A by blast
qed

lemma row_lookup:
  "map_of (row_entries g c p) q = Some a \<longleftrightarrow> (q, a) \<in> set (row_entries g c p)"
  by (rule map_of_eq_Some_iff [OF row_entries_distinct])

lemma row_entries_interior:
  assumes "\<not> on_boundary g (k, j, i)"
  shows "set (row_entries g c (k, j, i))
     = {((k, j, i), c11 (model c) (k, j, i) * (dt (time c) * dt (time c)) / rho (model c) (k, j, i)
                      * 2 * (hy g * hz g / hx g + hx g * hz g / hy g + hx g * hy g / hz g)
                    + 2 * hx g * hy g * hz g)}
       \<union> (if 0 < i - 1
          then {((k, j, i - 1), - c11 (model c) (k, j, i) * (dt (time c) * dt (time c))
                                  / rho (model c) (k, j, i) * (hy g * hz g / hx g))} else {})
       \<union> (if i + 1 < mx g - 1
          then {((k, j, i + 1), - c11 (model c) (k, j, i) * (dt (time c) * dt (time c))
                                  / rho (model c) (k, j, i) * (hy g * hz g / hx g))} else {})
       \<union> (if 0 < j - 1
          then {((k, j - 1, i), - c11 (model c) (k, j, i) * (dt (time c) * dt (time c))
                                  / rho (model c) (k, j, i) * (hx g * hz g / hy g))} else {})
       \<union> (if j + 1 < my g - 1
          then {((k, j + 1, i), - c11 (model c) (k, j, i) * (dt (time c) * dt (time c))
                                  / rho (model c) (k, j, i) * (hx g * hz g / hy g))} else {})
       \<union> (if 0 < k - 1
          then {((k - 1, j, i), - c11 (model c) (k, j, i) * (dt (time c) * dt (time c))
                                  / rho (model c) (k, j, i) * (hx g * hy g / hz g))} else {})
       \<union> (if k + 1 < mz g - 1
          then {((k + 1, j, i), - c11 (model c) (k, j, i) * (dt (time c) * dt (time c))
                                  / rho (model c) (k, j, i) * (hx g * hy g / hz g))} else {})"
  using assms by (simp add: row_entries_def Let_def Un_assoc)

text \<open>
  Claim C2, as amended. For every interior node the row of the assembled operator has
  the diagonal value \<open>c11 * dt\<^sup>2 / rho * 2 * (hy * hz / hx + hx * hz / hy + hx * hy / hz)
  + 2 * hx * hy * hz\<close>, and every other entry set in the row lies in the column of a
  face neighbour and is \<open>- c11 * dt\<^sup>2 / rho\<close> times the ratio of that axis. Here \<open>hx\<close>,
  \<open>hy\<close>, \<open>hz\<close> are the spacings that \<open>compute_A_ux\<close> computes itself, \<open>1 / (mx - 1)\<close>,
  \<open>1 / (my - 1)\<close> and \<open>1 / (mz - 1)\<close>, not the \<open>dx\<close>, \<open>dy\<close>, \<open>dz\<close> of the model.
\<close>

theorem interior_row_values:
  assumes "DMDA_ok g" and "owns g (k, j, i)" and "\<not> on_boundary g (k, j, i)"
    and "rho (model c) (k, j, i) \<noteq> 0"
  shows "\<exists>A. assemble stack g c = Some A
     \<and> A (k, j, i) (k, j, i)
         = Some (c11 (model c) (k, j, i) * (dt (time c))\<^sup>2 / rho (model c) (k, j, i)
                   * 2 * (hy g * hz g / hx g + hx g * hz g / hy g + hx g * hy g / hz g)
                 + 2 * hx g * hy g * hz g)
     \<and> (\<forall>q a. q \<noteq> (k, j, i) \<and> A (k, j, i) q = Some a \<longrightarrow>
           (q = (k, j, i - 1) \<or> q = (k, j, i + 1))
             \<and> a = - c11 (model c) (k, j, i) * (dt (time c))\<^sup>2 / rho (model c) (k, j, i)
                     * (hy g * hz g / hx g)
         \<or> (q = (k, j - 1, i) \<or> q = (k, j + 1, i))
             \<and> a = - c11 (model c) (k, j, i) * (dt (time c))\<^sup>2 / rho (model c) (k, j, i)
                     * (hx g * hz g / hy g)
         \<or> (q = (k - 1, j, i) \<or> q = (k + 1, j, i))
             \<and> a = - c11 (model c) (k, j, i) * (dt (time c))\<^sup>2 / rho (model c) (k, j, i)
                     * (hx g * hy g / hz g))
     \<and> hx g = 1 / real_of_int (sint (mx g - 1))
     \<and> hy g = 1 / real_of_int (sint (my g - 1))
     \<and> hz g = 1 / real_of_int (sint (mz g - 1))"
proof -
  let ?A = "\<lambda>q. if owns g q then map_of (row_entries g c q) else Map.empty"
  have row: "?A (k, j, i) = map_of (row_entries g c (k, j, i))"
    using assms(2) by simp
  have diag: "?A (k, j, i) (k, j, i)
         = Some (c11 (model c) (k, j, i) * (dt (time c))\<^sup>2 / rho (model c) (k, j, i)
                   * 2 * (hy g * hz g / hx g + hx g * hz g / hy g + hx g * hy g / hz g)
                 + 2 * hx g * hy g * hz g)"
    unfolding row row_lookup row_entries_interior [OF assms(3)]
    by (simp add: power2_eq_square)
  have off: "(q = (k, j, i - 1) \<or> q = (k, j, i + 1))
             \<and> a = - c11 (model c) (k, j, i) * (dt (time c))\<^sup>2 / rho (model c) (k, j, i)
                     * (hy g * hz g / hx g)
         \<or> (q = (k, j - 1, i) \<or> q = (k, j + 1, i))
             \<and> a = - c11 (model c) (k, j, i) * (dt (time c))\<^sup>2 / rho (model c) (k, j, i)
                     * (hx g * hz g / hy g)
         \<or> (q = (k - 1, j, i) \<or> q = (k + 1, j, i))
             \<and> a = - c11 (model c) (k, j, i) * (dt (time c))\<^sup>2 / rho (model c) (k, j, i)
                     * (hx g * hy g / hz g)"
    if "q \<noteq> (k, j, i)" and "?A (k, j, i) q = Some a" for q a
    using that unfolding row row_lookup row_entries_interior [OF assms(3)]
    by (auto simp: power2_eq_square split: if_splits)
  from diag off show ?thesis
    unfolding assemble_rows by (simp add: hx_def hy_def hz_def del: split_paired_All) 
qed

theorem interior_row_values_witness:
  "DMDA_ok (one_process 3 3 3) \<and> owns (one_process 3 3 3) (1, 1, 1)
   \<and> \<not> on_boundary (one_process 3 3 3) (1, 1, 1) \<and> rho (model cube_ctx) (1, 1, 1) \<noteq> 0
   \<and> (\<exists>A. assemble zero_stack (one_process 3 3 3) cube_ctx = Some A
           \<and> A (1, 1, 1) (1, 1, 1) = Some (47 / 108))"
proof -
  have ok: "DMDA_ok (one_process 3 3 3)" by (rule one_process_ok)
  have o: "owns (one_process 3 3 3) (1, 1, 1)" by (simp add: one_process_owns)
  have d: "rho (model cube_ctx) (1, 1, 1) \<noteq> 0" by (simp add: cube_ctx_simps)
  from interior_row_values [OF ok o bd_333 d, of zero_stack] obtain A
    where A: "assemble zero_stack (one_process 3 3 3) cube_ctx = Some A"
      and v: "A (1, 1, 1) (1, 1, 1)
         = Some (c11 (model cube_ctx) (1, 1, 1) * (dt (time cube_ctx))\<^sup>2 / rho (model cube_ctx) (1, 1, 1)
                   * 2 * (hy (one_process 3 3 3) * hz (one_process 3 3 3) / hx (one_process 3 3 3)
                          + hx (one_process 3 3 3) * hz (one_process 3 3 3) / hy (one_process 3 3 3)
                          + hx (one_process 3 3 3) * hy (one_process 3 3 3) / hz (one_process 3 3 3))
                 + 2 * hx (one_process 3 3 3) * hy (one_process 3 3 3) * hz (one_process 3 3 3))"
    by blast
  from v have "A (1, 1, 1) (1, 1, 1) = Some (47 / 108)"
    by (simp add: cube_ctx_simps h_333 power2_eq_square)
  with ok o bd_333 d A show ?thesis by blast
qed

text \<open>
  The claim as stated fails on the grid of 3 by 3 by 3 nodes that \<open>main\<close> sets up: the
  diagonal value of the interior node is \<open>47 / 108\<close>, from \<open>hx = hy = hz = 1 / 2\<close>, not the
  value that the formula gives with \<open>dx = dy = dz = 1000 / 3\<close>.
\<close>

theorem operator_spacing_counterexample:
  "Option.bind (assemble zero_stack (one_process 3 3 3) cube_ctx) (\<lambda>A. A (1, 1, 1) (1, 1, 1))
     \<noteq> Some (c11 (model cube_ctx) (1, 1, 1) * (dt (time cube_ctx))\<^sup>2 / rho (model cube_ctx) (1, 1, 1)
               * 2 * (dy (model cube_ctx) * dz (model cube_ctx) / dx (model cube_ctx)
                      + dx (model cube_ctx) * dz (model cube_ctx) / dy (model cube_ctx)
                      + dx (model cube_ctx) * dy (model cube_ctx) / dz (model cube_ctx))
             + 2 * dx (model cube_ctx) * dy (model cube_ctx) * dz (model cube_ctx))"
proof -
  have "Option.bind (assemble zero_stack (one_process 3 3 3) cube_ctx) (\<lambda>A. A (1, 1, 1) (1, 1, 1))
      = Some (47 / 108)"
    unfolding assemble_rows
    by (simp add: one_process_owns row_lookup row_entries_interior [OF bd_333]
        cube_ctx_simps h_333)
  then show ?thesis
    by (simp add: cube_ctx_simps power2_eq_square)
qed

lemma interior_words:
  assumes "DMDA_ok g" and "owns g (k, j, i)" and "\<not> on_boundary g (k, j, i)"
  shows "0 < i \<and> i < mx g - 1 \<and> 0 < j \<and> j < my g - 1 \<and> 0 < k \<and> k < mz g - 1"
proof -
  note n = interior_node [OF assms]
  from n have "0 < unat i \<and> unat i + 1 < unat (mx g)
       \<and> unat (i - 1) = unat i - 1 \<and> unat (i + 1) = unat i + 1
       \<and> unat (mx g - 1) = unat (mx g) - 1"
    by (intro interior_axis) simp_all
  moreover from n have "0 < unat j \<and> unat j + 1 < unat (my g)
       \<and> unat (j - 1) = unat j - 1 \<and> unat (j + 1) = unat j + 1
       \<and> unat (my g - 1) = unat (my g) - 1"
    by (intro interior_axis) simp_all
  moreover from n have "0 < unat k \<and> unat k + 1 < unat (mz g)
       \<and> unat (k - 1) = unat k - 1 \<and> unat (k + 1) = unat k + 1
       \<and> unat (mz g - 1) = unat (mz g) - 1"
    by (intro interior_axis) simp_all
  ultimately show ?thesis
    by (auto simp add: word_less_nat_alt)
qed

text \<open>
  Claim C9. With constant material fields, as \<open>main\<close> sets them, the entries of the
  assembled operator that couple two interior face neighbours \<open>p\<close> and \<open>q\<close> are equal,
  \<open>A[p,q] = A[q,p]\<close>, and both are set. That both nodes are interior is enough: no further
  distance from the boundary is needed.
\<close>

theorem stencil_symmetry:
  assumes ok: "DMDA_ok g"
    and p: "owns g (k, j, i)" "\<not> on_boundary g (k, j, i)"
    and q: "owns g q" "\<not> on_boundary g q"
    and nb: "q = (k, j, i - 1) \<or> q = (k, j, i + 1) \<or> q = (k, j - 1, i) \<or> q = (k, j + 1, i)
           \<or> q = (k - 1, j, i) \<or> q = (k + 1, j, i)"
    and mat: "c11 (model c) = (\<lambda>n. a)" "rho (model c) = (\<lambda>n. r)" "r \<noteq> 0"
  shows "\<exists>A. assemble stack g c = Some A \<and> A (k, j, i) q = A q (k, j, i) \<and> A (k, j, i) q \<noteq> None"
proof -
  let ?A = "\<lambda>q. if owns g q then map_of (row_entries g c q) else Map.empty"
  note wp = interior_words [OF ok p]
  have both: "?A (k, j, i) q = Some x \<and> ?A q (k, j, i) = Some x"
    if "(q, x) \<in> set (row_entries g c (k, j, i))" and "((k, j, i), x) \<in> set (row_entries g c q)"
    for x
    using that p(1) q(1) by (simp add: row_lookup)
  from nb have "\<exists>x. ?A (k, j, i) q = Some x \<and> ?A q (k, j, i) = Some x"
  proof (elim disjE)
    assume e: "q = (k, j, i - 1)"
    note wq = interior_words [OF ok q [unfolded e]]
    show ?thesis
      by (rule exI, rule both; unfold e;
          simp add: row_entries_interior [OF p(2)] row_entries_interior [OF q(2) [unfolded e]]
            wp wq mat word32_step)
  next
    assume e: "q = (k, j, i + 1)"
    note wq = interior_words [OF ok q [unfolded e]]
    show ?thesis
      by (rule exI, rule both; unfold e;
          simp add: row_entries_interior [OF p(2)] row_entries_interior [OF q(2) [unfolded e]]
            wp wq mat word32_step)
  next
    assume e: "q = (k, j - 1, i)"
    note wq = interior_words [OF ok q [unfolded e]]
    show ?thesis
      by (rule exI, rule both; unfold e;
          simp add: row_entries_interior [OF p(2)] row_entries_interior [OF q(2) [unfolded e]]
            wp wq mat word32_step)
  next
    assume e: "q = (k, j + 1, i)"
    note wq = interior_words [OF ok q [unfolded e]]
    show ?thesis
      by (rule exI, rule both; unfold e;
          simp add: row_entries_interior [OF p(2)] row_entries_interior [OF q(2) [unfolded e]]
            wp wq mat word32_step)
  next
    assume e: "q = (k - 1, j, i)"
    note wq = interior_words [OF ok q [unfolded e]]
    show ?thesis
      by (rule exI, rule both; unfold e;
          simp add: row_entries_interior [OF p(2)] row_entries_interior [OF q(2) [unfolded e]]
            wp wq mat word32_step)
  next
    assume e: "q = (k + 1, j, i)"
    note wq = interior_words [OF ok q [unfolded e]]
    show ?thesis
      by (rule exI, rule both; unfold e;
          simp add: row_entries_interior [OF p(2)] row_entries_interior [OF q(2) [unfolded e]]
            wp wq mat word32_step)
  qed
  then obtain x where "?A (k, j, i) q = Some x" and "?A q (k, j, i) = Some x"
    by blast
  then have "?A (k, j, i) q = ?A q (k, j, i) \<and> ?A (k, j, i) q \<noteq> None"
    by (simp only: option.distinct not_False_eq_True simp_thms)
  then show ?thesis
    unfolding assemble_rows by blast
qed

theorem stencil_symmetry_witness:
  "DMDA_ok (one_process 4 3 3)
   \<and> owns (one_process 4 3 3) (1, 1, 1) \<and> \<not> on_boundary (one_process 4 3 3) (1, 1, 1)
   \<and> owns (one_process 4 3 3) (1, 1, 2) \<and> \<not> on_boundary (one_process 4 3 3) (1, 1, 2)
   \<and> c11 (model rhs_ctx) = (\<lambda>n. 1800) \<and> rho (model rhs_ctx) = (\<lambda>n. 1000)
   \<and> (\<exists>A. assemble zero_stack (one_process 4 3 3) rhs_ctx = Some A
           \<and> A (1, 1, 1) (1, 1, 2) = A (1, 1, 2) (1, 1, 1) \<and> A (1, 1, 1) (1, 1, 2) \<noteq> None)"
proof -
  have ok: "DMDA_ok (one_process 4 3 3)" by (rule one_process_ok)
  have p: "owns (one_process 4 3 3) (1, 1, 1)" and q: "owns (one_process 4 3 3) (1, 1, 2)"
    by (simp_all add: one_process_owns)
  have nb: "(1, 1, 2) = (1, 1, 1 - 1) \<or> (1, 1, 2) = (1, 1, 1 + 1)
      \<or> (1, 1, 2) = (1, 1 - 1, 1) \<or> (1, 1, 2) = (1, 1 + 1, 1)
      \<or> (1, 1, 2) = (1 - 1, 1, 1) \<or> (1, 1, 2) = (1 + 1, 1, 1 :: 32 word)"
    by simp
  have c: "c11 (model rhs_ctx) = (\<lambda>n. 1800)" and r: "rho (model rhs_ctx) = (\<lambda>n. 1000)"
    by (simp_all add: rhs_ctx_def main_setup_def zero_ctx_def Let_def)
  have nz: "(1000 :: real) \<noteq> 0" by simp
  from stencil_symmetry [OF ok p bd_433(2) q bd_433(1) nb c r nz, of zero_stack]
    ok p q bd_433 c r
  show ?thesis by blast
qed

section \<open>The time loop\<close>

lemma source_term_keeps:
  "wf (source_term c) = wf c" "model (source_term c) = model c" "time (source_term c) = time c"
  by (simp_all add: source_term_def Let_def)

lemma time_step_unfold:
  "time_step linear_solve MatNullSpaceRemove stack g n s =
     (let c' = source_term ((st_ctx s)\<lparr>time := (time (st_ctx s))\<lparr>it := word_of_int n\<rparr>\<rparr>);
          b' = MatNullSpaceRemove (update_b_ux_loops g c' (st_b s))
      in case (case st_A s of Some A \<Rightarrow> Some A | None \<Rightarrow> assemble stack g c') of
           None \<Rightarrow> Inl StencilOverrun
         | Some A \<Rightarrow>
             (case linear_solve A b' (ux (wf (st_ctx s))) of
                None \<Rightarrow> Inl PetscError
              | Some u \<Rightarrow>
                  Inr \<lparr>st_ctx = c'\<lparr>wf := (wf (st_ctx s))\<lparr>ux := u, uxm3 := uxm2 (wf (st_ctx s)),
                                                          uxm2 := uxm1 (wf (st_ctx s)), uxm1 := u\<rparr>\<rparr>,
                       st_b = b', st_A = Some A\<rparr>))"
  by (simp add: time_step_def KSPSolve_def update_b_ux_def rotate_history_def Let_def
      source_term_keeps split: option.splits)

lemma time_step_Inr:
  assumes "time_step linear_solve MatNullSpaceRemove stack g n s = Inr s'"
  shows "\<exists>A b. linear_solve A b (ux (wf (st_ctx s))) = Some (ux (wf (st_ctx s')))
           \<and> st_A s' = Some A
           \<and> (case st_A s of
                 Some A0 \<Rightarrow> A = A0
               | None \<Rightarrow> \<exists>c. assemble stack g c = Some A \<and> model c = model (st_ctx s)
                                \<and> dt (time c) = dt (time (st_ctx s)))"
    and "uxm1 (wf (st_ctx s')) = ux (wf (st_ctx s'))"
    and "uxm2 (wf (st_ctx s')) = uxm1 (wf (st_ctx s))"
    and "uxm3 (wf (st_ctx s')) = uxm2 (wf (st_ctx s))"
proof -
  define c' where "c' = source_term ((st_ctx s)\<lparr>time := (time (st_ctx s))\<lparr>it := word_of_int n\<rparr>\<rparr>)"
  define b' where "b' = MatNullSpaceRemove (update_b_ux_loops g c' (st_b s))"
  have keep: "model c' = model (st_ctx s)" "dt (time c') = dt (time (st_ctx s))"
    by (simp_all add: c'_def source_term_keeps)
  from assms obtain A u where
    A: "(case st_A s of Some A \<Rightarrow> Some A | None \<Rightarrow> assemble stack g c') = Some A"
    and u: "linear_solve A b' (ux (wf (st_ctx s))) = Some u"
    and s': "s' = \<lparr>st_ctx = c'\<lparr>wf := (wf (st_ctx s))\<lparr>ux := u, uxm3 := uxm2 (wf (st_ctx s)),
                                                          uxm2 := uxm1 (wf (st_ctx s)), uxm1 := u\<rparr>\<rparr>,
                       st_b = b', st_A = Some A\<rparr>"
    unfolding time_step_unfold Let_def c'_def [symmetric] b'_def [symmetric]
    by (auto split: option.splits)
  from A keep have "case st_A s of
                 Some A0 \<Rightarrow> A = A0
               | None \<Rightarrow> \<exists>c. assemble stack g c = Some A \<and> model c = model (st_ctx s)
                                \<and> dt (time c) = dt (time (st_ctx s))"
    by (auto split: option.splits)
  moreover from u have "linear_solve A b' (ux (wf (st_ctx s))) = Some (ux (wf (st_ctx s')))"
    by (simp add: s')
  moreover have "st_A s' = Some A" by (simp add: s')
  ultimately show "\<exists>A b. linear_solve A b (ux (wf (st_ctx s))) = Some (ux (wf (st_ctx s')))
           \<and> st_A s' = Some A
           \<and> (case st_A s of
                 Some A0 \<Rightarrow> A = A0
               | None \<Rightarrow> \<exists>c. assemble stack g c = Some A \<and> model c = model (st_ctx s)
                                \<and> dt (time c) = dt (time (st_ctx s)))"
    by blast
  show "uxm1 (wf (st_ctx s')) = ux (wf (st_ctx s'))"
    and "uxm2 (wf (st_ctx s')) = uxm1 (wf (st_ctx s))"
    and "uxm3 (wf (st_ctx s')) = uxm2 (wf (st_ctx s))"
    by (simp_all add: s')
qed

lemma time_step_total:
  assumes "\<And>A b x. linear_solve A b x \<noteq> None"
  shows "\<exists>s'. time_step linear_solve MatNullSpaceRemove stack g n s = Inr s'"
proof -
  define c' where "c' = source_term ((st_ctx s)\<lparr>time := (time (st_ctx s))\<lparr>it := word_of_int n\<rparr>\<rparr>)"
  define b' where "b' = MatNullSpaceRemove (update_b_ux_loops g c' (st_b s))"
  obtain A where
    A: "(case st_A s of Some A \<Rightarrow> Some A | None \<Rightarrow> assemble stack g c') = Some A"
    by (cases "st_A s") (simp_all add: assemble_rows)
  from assms [of A b' "ux (wf (st_ctx s))"] obtain u
    where u: "linear_solve A b' (ux (wf (st_ctx s))) = Some u" by auto
  show ?thesis
    unfolding time_step_unfold Let_def c'_def [symmetric] b'_def [symmetric] A
    by (simp add: u)
qed

lemma for_steps_snoc:
  "for_steps (l @ [n]) body s
     = (case for_steps l body s of Inl e \<Rightarrow> Inl e | Inr s' \<Rightarrow> body n s')"
  by (induction l arbitrary: s) (auto split: sum.splits)

lemma time_loop_step:
  assumes "1 \<le> n"
  shows "time_loop linear_solve MatNullSpaceRemove stack g n s
     = (case time_loop linear_solve MatNullSpaceRemove stack g (n - 1) s of
          Inl e \<Rightarrow> Inl e
        | Inr s' \<Rightarrow> time_step linear_solve MatNullSpaceRemove stack g n s')"
  unfolding time_loop_def upto_rec2 [OF assms] for_steps_snoc ..

lemma time_loop_back:
  assumes "1 \<le> n" and "time_loop linear_solve MatNullSpaceRemove stack g n s = Inr s'"
  shows "\<exists>s1. time_loop linear_solve MatNullSpaceRemove stack g (n - 1) s = Inr s1
             \<and> time_step linear_solve MatNullSpaceRemove stack g n s1 = Inr s'"
  using assms(2) unfolding time_loop_step [OF assms(1)]
  by (auto split: sum.splits)

lemma for_steps_total:
  assumes "\<And>n s. \<exists>s'. body n s = Inr s'"
  shows "\<exists>s'. for_steps l body s = Inr s'"
proof (induction l arbitrary: s)
  case Nil
  show ?case by simp
next
  case (Cons n l)
  from assms [of n s] obtain s1 where "body n s = Inr s1" by blast
  with Cons.IH [of s1] show ?case by simp
qed

lemma time_loop_total:
  assumes "\<And>A b x. linear_solve A b x \<noteq> None"
  shows "\<exists>s'. time_loop linear_solve MatNullSpaceRemove stack g n s = Inr s'"
  unfolding time_loop_def
  by (rule for_steps_total) (rule time_step_total [OF assms])

text \<open>
  Claim C7. Every time step that succeeds shifts the history by one slot: what was held
  as n-2 is then held as n-3, what was held as n-1 is then held as n-2, and the
  solution that the solver has just returned is held both as the current vector and as
  n-1. Hence for every step \<open>k > 3\<close> that the loop reaches, the vectors held as n-1, n-2
  and n-3 when step \<open>k\<close> starts are the solutions that the steps \<open>k - 1\<close>, \<open>k - 2\<close> and
  \<open>k - 3\<close> produced, which are the current vectors of the states that the loop reached
  after those steps.
\<close>

theorem history_rotation:
  "(time_step linear_solve MatNullSpaceRemove stack g n s = Inr s' \<longrightarrow>
      uxm3 (wf (st_ctx s')) = uxm2 (wf (st_ctx s))
      \<and> uxm2 (wf (st_ctx s')) = uxm1 (wf (st_ctx s))
      \<and> uxm1 (wf (st_ctx s')) = ux (wf (st_ctx s'))
      \<and> (\<exists>A b. linear_solve A b (ux (wf (st_ctx s))) = Some (ux (wf (st_ctx s')))))
   \<and> (3 < k \<and> time_loop linear_solve MatNullSpaceRemove stack g (k - 1) s0 = Inr sk \<longrightarrow>
        (\<exists>s2 s3. time_loop linear_solve MatNullSpaceRemove stack g (k - 2) s0 = Inr s2
           \<and> time_loop linear_solve MatNullSpaceRemove stack g (k - 3) s0 = Inr s3
           \<and> uxm1 (wf (st_ctx sk)) = ux (wf (st_ctx sk))
           \<and> uxm2 (wf (st_ctx sk)) = ux (wf (st_ctx s2))
           \<and> uxm3 (wf (st_ctx sk)) = ux (wf (st_ctx s3))))"
proof (rule conjI; rule impI)
  assume step: "time_step linear_solve MatNullSpaceRemove stack g n s = Inr s'"
  from time_step_Inr [OF step]
  show "uxm3 (wf (st_ctx s')) = uxm2 (wf (st_ctx s))
      \<and> uxm2 (wf (st_ctx s')) = uxm1 (wf (st_ctx s))
      \<and> uxm1 (wf (st_ctx s')) = ux (wf (st_ctx s'))
      \<and> (\<exists>A b. linear_solve A b (ux (wf (st_ctx s))) = Some (ux (wf (st_ctx s'))))"
    by blast
next
  assume run: "3 < k \<and> time_loop linear_solve MatNullSpaceRemove stack g (k - 1) s0 = Inr sk"
  then have k: "1 \<le> k - 1" "1 \<le> k - 2" "1 \<le> k - 3" by simp_all
  from run have l1: "time_loop linear_solve MatNullSpaceRemove stack g (k - 1) s0 = Inr sk"
    by simp
  have e: "k - 1 - 1 = k - 2" "k - 2 - 1 = k - 3" by simp_all
  from time_loop_back [OF k(1) l1] obtain s2
    where l2: "time_loop linear_solve MatNullSpaceRemove stack g (k - 2) s0 = Inr s2"
      and t1: "time_step linear_solve MatNullSpaceRemove stack g (k - 1) s2 = Inr sk"
    unfolding e by blast
  from time_loop_back [OF k(2) l2] obtain s3
    where l3: "time_loop linear_solve MatNullSpaceRemove stack g (k - 3) s0 = Inr s3"
      and t2: "time_step linear_solve MatNullSpaceRemove stack g (k - 2) s3 = Inr s2"
    unfolding e by blast
  from time_loop_back [OF k(3) l3] obtain s4
    where t3: "time_step linear_solve MatNullSpaceRemove stack g (k - 3) s4 = Inr s3"
    by blast
  note a = time_step_Inr(2-4) [OF t1] and b = time_step_Inr(2-4) [OF t2]
    and c = time_step_Inr(2-4) [OF t3]
  have "uxm1 (wf (st_ctx sk)) = ux (wf (st_ctx sk))" by (rule a(1))
  moreover have "uxm2 (wf (st_ctx sk)) = ux (wf (st_ctx s2))"
    by (simp only: a(2) b(1))
  moreover have "uxm3 (wf (st_ctx sk)) = ux (wf (st_ctx s3))"
    by (simp only: a(3) b(2) c(1))
  ultimately show "\<exists>s2 s3. time_loop linear_solve MatNullSpaceRemove stack g (k - 2) s0 = Inr s2
           \<and> time_loop linear_solve MatNullSpaceRemove stack g (k - 3) s0 = Inr s3
           \<and> uxm1 (wf (st_ctx sk)) = ux (wf (st_ctx sk))
           \<and> uxm2 (wf (st_ctx sk)) = ux (wf (st_ctx s2))
           \<and> uxm3 (wf (st_ctx sk)) = ux (wf (st_ctx s3))"
    using l2 l3 by blast
qed

theorem history_rotation_witness:
  "(\<exists>s'. time_step echo_solve (\<lambda>b. b) zero_stack (one_process 3 3 3) 1 cube_start = Inr s'
       \<and> uxm3 (wf (st_ctx s')) = uxm2 (wf (st_ctx cube_start))
       \<and> uxm2 (wf (st_ctx s')) = uxm1 (wf (st_ctx cube_start))
       \<and> uxm1 (wf (st_ctx s')) = ux (wf (st_ctx s')))
   \<and> (3 :: int) < 4
   \<and> (\<exists>sk s2 s3. time_loop echo_solve (\<lambda>b. b) zero_stack (one_process 3 3 3) (4 - 1) cube_start = Inr sk
        \<and> time_loop echo_solve (\<lambda>b. b) zero_stack (one_process 3 3 3) (4 - 2) cube_start = Inr s2
        \<and> time_loop echo_solve (\<lambda>b. b) zero_stack (one_process 3 3 3) (4 - 3) cube_start = Inr s3
        \<and> uxm1 (wf (st_ctx sk)) = ux (wf (st_ctx sk))
        \<and> uxm2 (wf (st_ctx sk)) = ux (wf (st_ctx s2))
        \<and> uxm3 (wf (st_ctx sk)) = ux (wf (st_ctx s3)))"
proof -
  have solves: "echo_solve A b x \<noteq> None" for A b x by (simp add: echo_solve_def)
  from time_step_total [of echo_solve, OF solves] obtain s'
    where step: "time_step echo_solve (\<lambda>b. b) zero_stack (one_process 3 3 3) 1 cube_start = Inr s'"
    by blast
  from time_loop_total [of echo_solve, OF solves] obtain sk
    where run: "time_loop echo_solve (\<lambda>b. b) zero_stack (one_process 3 3 3) (4 - 1) cube_start = Inr sk"
    by blast
  have k: "(3 :: int) < 4" by simp
  from history_rotation [of echo_solve "\<lambda>b. b" zero_stack "one_process 3 3 3" 1 cube_start s'
      4 cube_start sk] step run k
  show ?thesis by blast
qed

section \<open>Grids with fewer than three nodes on an axis\<close>

lemma small_axis:
  fixes i m :: "32 word"
  assumes "i < m" and "unat m < 3"
  shows "i = 0 \<or> i = m - 1"
proof (cases "i = 0")
  case True
  then show ?thesis by simp
next
  case False
  from assms(1) have lt: "unat i < unat m" by (simp add: word_less_nat_alt)
  from False have "0 < unat i" by (simp add: unat_gt_0)
  with lt assms(2) have "unat i = unat m - 1" by simp
  moreover from lt have "m \<noteq> 0" by auto
  then have "unat (m - 1) = unat m - 1" by (rule unat_minus_one)
  ultimately have "unat i = unat (m - 1)" by simp
  then show ?thesis by (simp add: word_unat_eq_iff)
qed

lemma small_grid_boundary:
  assumes "DMDA_ok g"
    and "unat (mx g) < 3 \<or> unat (my g) < 3 \<or> unat (mz g) < 3"
    and "owns g q"
  shows "on_boundary g q"
proof -
  obtain k j i where q: "q = (k, j, i)" by (cases q) auto
  from owns_in_grid [OF assms(1) assms(3) [unfolded q]]
  have "i < mx g" "j < my g" "k < mz g" by simp_all
  with assms(2) small_axis [of i "mx g"] small_axis [of j "my g"] small_axis [of k "mz g"]
  show ?thesis
    unfolding q on_boundary_def by auto
qed

lemma small_grid_operator:
  assumes "DMDA_ok g"
    and "unat (mx g) < 3 \<or> unat (my g) < 3 \<or> unat (mz g) < 3"
  shows "assemble stack g c = Some (\<lambda>q. if owns g q then [q \<mapsto> 1] else Map.empty)"
proof -
  have "(if owns g q then map_of (row_entries g c q) else Map.empty)
      = (if owns g q then [q \<mapsto> 1] else Map.empty)" for q
    using small_grid_boundary [OF assms, of q]
    by (simp add: row_entries_boundary)
  then show ?thesis
    unfolding assemble_rows by simp
qed

lemma for_steps_operator:
  assumes total: "\<And>n s. \<exists>s'. body n s = Inr s'"
    and sets: "\<And>n s s'. body n s = Inr s' \<Longrightarrow> st_A s = None \<or> st_A s = Some A
                 \<Longrightarrow> st_A s' = Some A"
    and start: "st_A s = None \<or> st_A s = Some A"
    and steps: "l \<noteq> []"
  shows "\<exists>s'. for_steps l body s = Inr s' \<and> st_A s' = Some A"
  using start steps
proof (induction l arbitrary: s)
  case Nil
  then show ?case by simp
next
  case (Cons n l)
  from total [of n s] obtain s1 where s1: "body n s = Inr s1" by blast
  from sets [OF s1 Cons.prems(1)] have A1: "st_A s1 = Some A" .
  show ?case
  proof (cases "l = []")
    case True
    with s1 A1 show ?thesis by simp
  next
    case False
    from Cons.IH [of s1, OF _ False] A1 s1 show ?thesis by simp
  qed
qed

lemma main_small_grid:
  assumes ok: "DMDA_ok g"
    and small: "unat (mx g) < 3 \<or> unat (my g) < 3 \<or> unat (mz g) < 3"
    and solver: "\<And>A b x. linear_solve A b x \<noteq> None"
    and steps: "0 < sint (nt (time (main_setup c0 g)))"
  shows "\<exists>s. main linear_solve MatNullSpaceRemove stack c0 b0 g = Inr s
           \<and> st_A s = Some (\<lambda>q. if owns g q then [q \<mapsto> 1] else Map.empty)"
proof -
  let ?Id = "\<lambda>q. if owns g q then [q \<mapsto> 1] else Map.empty"
  let ?step = "time_step linear_solve MatNullSpaceRemove stack g"
  have sets: "st_A s' = Some ?Id"
    if "?step n s = Inr s'" and "st_A s = None \<or> st_A s = Some ?Id" for n s s'
  proof -
    from time_step_Inr(1) [OF that(1)] obtain A where A: "st_A s' = Some A"
      and how: "case st_A s of Some A0 \<Rightarrow> A = A0
               | None \<Rightarrow> \<exists>c. assemble stack g c = Some A \<and> model c = model (st_ctx s)
                                \<and> dt (time c) = dt (time (st_ctx s))"
      by blast
    from how that(2) have "A = ?Id"
      by (auto simp: small_grid_operator [OF ok small] split: option.splits)
    with A show ?thesis by simp
  qed
  from steps have ne: "[1..sint (nt (time (main_setup c0 g)))] \<noteq> []" by simp
  from for_steps_operator [of ?step ?Id
      "\<lparr>st_ctx = main_setup c0 g, st_b = b0, st_A = None\<rparr>"
      "[1..sint (nt (time (main_setup c0 g)))]",
      OF time_step_total [OF solver] sets _ ne]
  show ?thesis
    by (simp add: main_def time_loop_def Let_def)
qed

lemma nt_222: "sint (nt (time (main_setup zero_ctx (one_process 2 2 2)))) = 3"
  by (simp add: main_setup_def one_process_def zero_ctx_def Let_def double_to_PetscInt_def)

text \<open>
  Claim C8, as amended. The program has no check of the node counts. On a grid with a
  node count below 3 on some axis, \<open>main\<close> is not stopped by the set-up: if the linear
  solver does not fail and the loop takes a step, the run completes, the operator is
  assembled at the first solve without a fault, and every row set in it is the
  identity row of a boundary node, every node of such a grid being one.
\<close>

theorem no_node_count_check:
  assumes "DMDA_ok g"
    and "unat (mx g) < 3 \<or> unat (my g) < 3 \<or> unat (mz g) < 3"
    and "\<forall>A b x. linear_solve A b x \<noteq> None"
    and "0 < sint (nt (time (main_setup c0 g)))"
  shows "\<exists>s. main linear_solve MatNullSpaceRemove stack c0 b0 g = Inr s
           \<and> st_A s = Some (\<lambda>q. if owns g q then [q \<mapsto> 1] else Map.empty)"
  using assms by (intro main_small_grid) simp_all

theorem no_node_count_check_witness:
  "DMDA_ok (one_process 2 2 2)
   \<and> unat (mx (one_process 2 2 2)) < 3
   \<and> (\<forall>A b x. echo_solve A b x \<noteq> None)
   \<and> 0 < sint (nt (time (main_setup zero_ctx (one_process 2 2 2))))
   \<and> (\<exists>s. main echo_solve (\<lambda>b. b) zero_stack zero_ctx (\<lambda>p. 0) (one_process 2 2 2) = Inr s
          \<and> st_A s = Some (\<lambda>q. if owns (one_process 2 2 2) q then [q \<mapsto> 1] else Map.empty))"
proof -
  have ok: "DMDA_ok (one_process 2 2 2)" by (rule one_process_ok)
  have small: "unat (mx (one_process 2 2 2)) < 3" by (simp add: one_process_def)
  then have small': "unat (mx (one_process 2 2 2)) < 3 \<or> unat (my (one_process 2 2 2)) < 3
      \<or> unat (mz (one_process 2 2 2)) < 3" by simp
  have solves: "\<forall>A b x. echo_solve A b x \<noteq> None" by (simp add: echo_solve_def)
  have steps: "0 < sint (nt (time (main_setup zero_ctx (one_process 2 2 2))))"
    by (simp add: nt_222)
  from no_node_count_check [OF ok small' solves steps, of "\<lambda>b. b" zero_stack "\<lambda>p. 0"]
    ok small solves steps
  show ?thesis by blast
qed

text \<open>
  The claim as stated fails on the grid of 2 by 2 by 2 nodes: with a solver that does
  not fail, \<open>main\<close> returns no error, and the operator has been assembled, with the entry
  1 on the diagonal of the first node.
\<close>

theorem small_grid_rejected_counterexample:
  "\<not> isl (main echo_solve (\<lambda>b. b) zero_stack zero_ctx (\<lambda>p. 0) (one_process 2 2 2))
   \<and> Option.bind (st_A (projr (main echo_solve (\<lambda>b. b) zero_stack zero_ctx (\<lambda>p. 0)
                                   (one_process 2 2 2))))
        (\<lambda>A. A (0, 0, 0) (0, 0, 0)) = Some 1"
proof -
  have small: "unat (mx (one_process 2 2 2)) < 3 \<or> unat (my (one_process 2 2 2)) < 3
      \<or> unat (mz (one_process 2 2 2)) < 3" by (simp add: one_process_def)
  have solves: "echo_solve A b x \<noteq> None" for A b x by (simp add: echo_solve_def)
  have steps: "0 < sint (nt (time (main_setup zero_ctx (one_process 2 2 2))))"
    by (simp add: nt_222)
  from main_small_grid [where linear_solve = echo_solve and MatNullSpaceRemove = "\<lambda>b. b"
      and stack = zero_stack and ?b0.0 = "\<lambda>p. 0", OF one_process_ok small solves steps]
  obtain s where "main echo_solve (\<lambda>b. b) zero_stack zero_ctx (\<lambda>p. 0) (one_process 2 2 2) = Inr s"
    and "st_A s = Some (\<lambda>q. if owns (one_process 2 2 2) q then [q \<mapsto> 1] else Map.empty)"
    by blast
  then show ?thesis
    by (simp add: one_process_owns)
qed


section \<open>Properties of the source term\<close>

lemma ricker_below_one:
  fixes x :: real
  assumes "0 < x"
  shows "(1 - 2 * x) * exp (- x) < 1"
proof (cases "1 - 2 * x \<le> 0")
  case True
  have "0 \<le> exp (- x)" by simp
  with True have "(1 - 2 * x) * exp (- x) \<le> 0"
    by (rule mult_nonpos_nonneg)
  then show ?thesis by simp
next
  case False
  then have pos: "0 < 1 - 2 * x" by simp
  from assms have "exp (- x) < 1" by simp
  with pos have "(1 - 2 * x) * exp (- x) < (1 - 2 * x) * 1"
    by (rule mult_strict_left_mono [rotated])
  with assms show ?thesis by simp
qed

text \<open>
  Claim C5, as amended. The wavelet that \<open>source_term\<close> computes at each step and
  multiplies into the force is \<open>w = amplitude * (1 - 2 a (t - t0)\<^sup>2) * exp (- a (t - t0)\<^sup>2)\<close>
  with \<open>t = (step - 1) * dt\<close>, \<open>a = PI * PI * f0 * f0\<close> for the constant \<open>PI = 3.1415926535\<close>
  of the source, and \<open>t0 = 1.2f / f0\<close>, where \<open>1.2f\<close> is the single-precision number
  \<open>5033165 / 4194304\<close>, not 1.2. It equals the amplitude exactly when \<open>t = t0\<close>, and it is
  symmetric about \<open>t0\<close>: its values at \<open>t0 + s\<close> and at \<open>t0 - s\<close> agree for every offset \<open>s\<close>.
\<close>

theorem wavelet_peak_and_symmetry:
  assumes "f0 (src c) \<noteq> 0"
  shows "fx (src (source_term c))
           = sin (angle_force (src c) * PI / 180)
             * wavelet (factor (src c)) (f0 (src c))
                 ((real_of_int (sint (it (time c))) - 1) * dt (time c))
       \<and> (\<forall>t. wavelet (factor (src c)) (f0 (src c)) t
             = factor (src c)
               * (1 - 2 * (PI * PI * f0 (src c) * f0 (src c))
                        * (t - 5033165 / 4194304 / f0 (src c))\<^sup>2)
               * exp (- (PI * PI * f0 (src c) * f0 (src c))
                        * (t - 5033165 / 4194304 / f0 (src c))\<^sup>2))
       \<and> PI = 3.1415926535
       \<and> (elapsed c = 5033165 / 4194304 / f0 (src c) \<longrightarrow>
            wavelet (factor (src c)) (f0 (src c)) (elapsed c) = factor (src c))
       \<and> (\<forall>s. wavelet (factor (src c)) (f0 (src c)) (5033165 / 4194304 / f0 (src c) + s)
             = wavelet (factor (src c)) (f0 (src c)) (5033165 / 4194304 / f0 (src c) - s))"
proof -
  have force: "fx (src (source_term c))
           = sin (angle_force (src c) * PI / 180)
             * wavelet (factor (src c)) (f0 (src c))
                 ((real_of_int (sint (it (time c))) - 1) * dt (time c))"
    by (simp add: source_term_def elapsed_def Let_def)
  have formula: "wavelet (factor (src c)) (f0 (src c)) t
             = factor (src c)
               * (1 - 2 * (PI * PI * f0 (src c) * f0 (src c))
                        * (t - 5033165 / 4194304 / f0 (src c))\<^sup>2)
               * exp (- (PI * PI * f0 (src c) * f0 (src c))
                        * (t - 5033165 / 4194304 / f0 (src c))\<^sup>2)" for t
    by (simp add: wavelet_def float_1_2_def Let_def)
  have peak: "wavelet (factor (src c)) (f0 (src c)) (elapsed c) = factor (src c)"
    if "elapsed c = 5033165 / 4194304 / f0 (src c)"
    unfolding formula that by simp
  have sym: "wavelet (factor (src c)) (f0 (src c)) (5033165 / 4194304 / f0 (src c) + s)
             = wavelet (factor (src c)) (f0 (src c)) (5033165 / 4194304 / f0 (src c) - s)" for s
    unfolding formula by simp
  have "PI = 3.1415926535" by (rule PI_def)
  with force formula peak sym show ?thesis
    by blast
qed

theorem wavelet_peak_and_symmetry_witness:
  "f0 (src peak_ctx) \<noteq> 0
   \<and> elapsed peak_ctx = 5033165 / 4194304 / f0 (src peak_ctx)
   \<and> wavelet (factor (src peak_ctx)) (f0 (src peak_ctx)) (elapsed peak_ctx) = 7
   \<and> wavelet 7 (5033165 / 4194304) (1 + 1 / 2) = wavelet 7 (5033165 / 4194304) (1 - 1 / 2)"
proof -
  have nz: "f0 (src peak_ctx) \<noteq> 0"
    by (simp add: peak_ctx_def zero_ctx_def)
  have at_peak: "elapsed peak_ctx = 5033165 / 4194304 / f0 (src peak_ctx)"
    by (simp add: elapsed_def peak_ctx_def zero_ctx_def)
  have amp: "factor (src peak_ctx) = 7" and freq: "f0 (src peak_ctx) = 5033165 / 4194304"
    by (simp_all add: peak_ctx_def zero_ctx_def)
  from wavelet_peak_and_symmetry [OF nz] at_peak
  have "wavelet (factor (src peak_ctx)) (f0 (src peak_ctx)) (elapsed peak_ctx)
      = factor (src peak_ctx)"
    by blast
  then have peak: "wavelet (factor (src peak_ctx)) (f0 (src peak_ctx)) (elapsed peak_ctx) = 7"
    by (simp only: amp)
  from wavelet_peak_and_symmetry [OF nz]
  have "wavelet (factor (src peak_ctx)) (f0 (src peak_ctx))
          (5033165 / 4194304 / f0 (src peak_ctx) + 1 / 2)
      = wavelet (factor (src peak_ctx)) (f0 (src peak_ctx))
          (5033165 / 4194304 / f0 (src peak_ctx) - 1 / 2)"
    by blast
  then have sym: "wavelet 7 (5033165 / 4194304) (1 + 1 / 2)
      = wavelet 7 (5033165 / 4194304) (1 - 1 / 2)"
    by (simp add: amp freq)
  from nz at_peak peak sym show ?thesis by blast
qed

text \<open>
  The claim as stated, with \<open>t0 = 1.2 / f0\<close>, fails at step 2 of a run with time step 1,
  frequency 1.2 and amplitude 7: the elapsed time is \<open>1.2 / f0\<close>, yet the wavelet is below
  the amplitude, because the code's \<open>t0\<close> is \<open>1.2f / f0\<close>, a little later.
\<close>

theorem wavelet_nominal_peak_counterexample:
  "f0 (src nominal_ctx) \<noteq> 0
   \<and> elapsed nominal_ctx = 1.2 / f0 (src nominal_ctx)
   \<and> wavelet (factor (src nominal_ctx)) (f0 (src nominal_ctx)) (elapsed nominal_ctx)
       \<noteq> factor (src nominal_ctx)"
proof -
  define x :: real where "x = PI * PI * (12 / 10) * (12 / 10) * (1 - 5033165 / 4194304 / (12 / 10))\<^sup>2"
  have "0 < x" by (simp add: x_def PI_def)
  then have below: "(1 - 2 * x) * exp (- x) < 1" by (rule ricker_below_one)
  have vals: "f0 (src nominal_ctx) = 12 / 10" "factor (src nominal_ctx) = 7"
    "elapsed nominal_ctx = 1"
    by (simp_all add: nominal_ctx_def zero_ctx_def elapsed_def)
  have "wavelet 7 (12 / 10) 1 = 7 * ((1 - 2 * x) * exp (- x))"
    by (simp add: wavelet_def float_1_2_def Let_def x_def)
  with below have "wavelet 7 (12 / 10) 1 \<noteq> 7" by simp
  then show ?thesis by (simp add: vals)
qed

text \<open>
  Claim C6. At every step the force components that \<open>source_term\<close> stores are
  \<open>fx = sin \<theta> * w\<close>, \<open>fy = cos \<theta> * w\<close> and \<open>fz = sin \<theta> * w\<close>, where \<open>\<theta>\<close> is the force
  angle in degrees times \<open>PI / 180\<close> and \<open>w\<close> is the wavelet value of the step; in
  particular \<open>fx = fz\<close>.
\<close>

theorem force_components:
  "fx (src (source_term c))
     = sin (angle_force (src c) * PI / 180) * wavelet (factor (src c)) (f0 (src c)) (elapsed c)
   \<and> fy (src (source_term c))
     = cos (angle_force (src c) * PI / 180) * wavelet (factor (src c)) (f0 (src c)) (elapsed c)
   \<and> fz (src (source_term c))
     = sin (angle_force (src c) * PI / 180) * wavelet (factor (src c)) (f0 (src c)) (elapsed c)
   \<and> fx (src (source_term c)) = fz (src (source_term c))"
  by (simp add: source_term_def Let_def)


end
